theory Spec2Isabelle
  imports Main "HOL-Library.Sublist"
begin

section \<open>JavaScript values as the frontend observes them\<close>

text \<open>
  The InferOps frontend (\<^verbatim>\<open>frontend/js/*.js\<close>) handles text, parsed JSON and DOM
  elements.  Text is a \<^typ>\<open>string\<close>: the UTF-8 bytes of the JavaScript string.
  A parsed JSON document is a \<open>jsval\<close>; \<open>Undefined\<close> is what reading an absent
  property yields.  A number is kept as its decimal rendering (the text that
  \<^verbatim>\<open>String(n)\<close> produces), which is all this program observes of a number
  besides whether it is zero.  An object is the list of its own properties, every
  key once.
\<close>

datatype jsval =
    Undefined
  | JNull
  | JBool bool
  | JNum string
  | JStr string
  | JArr "jsval list"
  | JObj "(string \<times> jsval) list"

datatype js_error =
    TypeError
  | SyntaxError
  | HttpError nat
  | NetworkError

text \<open>\<^verbatim>\<open>if (v)\<close>, \<^verbatim>\<open>a && b\<close>, \<^verbatim>\<open>a || b\<close>: the values that count as false.\<close>

fun truthy :: "jsval \<Rightarrow> bool" where
  "truthy Undefined = False"
| "truthy JNull = False"
| "truthy (JBool b) = b"
| "truthy (JNum r) = (r \<noteq> ''0'' \<and> r \<noteq> ''NaN'')"
| "truthy (JStr s) = (s \<noteq> [])"
| "truthy (JArr xs) = True"
| "truthy (JObj kvs) = True"

text \<open>
  \<^verbatim>\<open>v.name\<close> for the property names this program reads from parsed JSON
  (\<^verbatim>\<open>choices\<close>, \<^verbatim>\<open>delta\<close>, \<^verbatim>\<open>content\<close>, \<^verbatim>\<open>node_name\<close>): none of them
  is a property of a prototype, so only an object can have one; reading a property
  of \<^verbatim>\<open>null\<close> or \<^verbatim>\<open>undefined\<close> throws a TypeError.
\<close>

fun get_prop :: "string \<Rightarrow> jsval \<Rightarrow> js_error + jsval" where
  "get_prop k Undefined = Inl TypeError"
| "get_prop k JNull = Inl TypeError"
| "get_prop k (JObj kvs) = (case map_of kvs k of None \<Rightarrow> Inr Undefined | Some v \<Rightarrow> Inr v)"
| "get_prop k v = Inr Undefined"

text \<open>
  \<^verbatim>\<open>v[0]\<close>: the first element of an array, the property \<^verbatim>\<open>"0"\<close> of an object,
  the first character of a string (here its first byte; the program reads
  \<^verbatim>\<open>.delta\<close> of it, which a string of any content does not have).
\<close>

fun get_index0 :: "jsval \<Rightarrow> js_error + jsval" where
  "get_index0 Undefined = Inl TypeError"
| "get_index0 JNull = Inl TypeError"
| "get_index0 (JArr xs) = (case xs of [] \<Rightarrow> Inr Undefined | x # _ \<Rightarrow> Inr x)"
| "get_index0 (JObj kvs) = (case map_of kvs ''0'' of None \<Rightarrow> Inr Undefined | Some v \<Rightarrow> Inr v)"
| "get_index0 (JStr s) = (case s of [] \<Rightarrow> Inr Undefined | c # _ \<Rightarrow> Inr (JStr [c]))"
| "get_index0 v = Inr Undefined"

text \<open>
  The conversion to text that \<^verbatim>\<open>s += v\<close> and a template literal apply to a value.
  An array is joined with commas, \<^verbatim>\<open>null\<close> elements giving the empty text; a
  parsed object renders as \<^verbatim>\<open>[object Object]\<close>, unless a property of its own
  hides \<^verbatim>\<open>toString\<close>, and then the conversion throws a TypeError (\<open>None\<close>).
\<close>

fun join_comma :: "string list \<Rightarrow> string" where
  "join_comma [] = []"
| "join_comma [s] = s"
| "join_comma (s # t # ss) = s @ '','' @ join_comma (t # ss)"

fun js_to_string :: "jsval \<Rightarrow> string option" where
  "js_to_string Undefined = Some ''undefined''"
| "js_to_string JNull = Some ''null''"
| "js_to_string (JBool b) = Some (if b then ''true'' else ''false'')"
| "js_to_string (JNum r) = Some r"
| "js_to_string (JStr s) = Some s"
| "js_to_string (JArr xs) =
     map_option join_comma
       (those (map (\<lambda>x. if x = JNull \<or> x = Undefined then Some [] else js_to_string x) xs))"
| "js_to_string (JObj kvs) =
     (if ''toString'' \<in> fst ` set kvs then None else Some ''[object Object]'')"

text \<open>\<^verbatim>\<open>s.startsWith(p)\<close>, \<^verbatim>\<open>s.split('\n')\<close>, \<^verbatim>\<open>xs.indexOf(x)\<close> and \<^verbatim>\<open>xs[i]\<close>.\<close>

definition startsWith :: "string \<Rightarrow> string \<Rightarrow> bool" where
  "startsWith s p = (take (length p) s = p)"

fun split_nl :: "string \<Rightarrow> string list" where
  "split_nl [] = [ [] ]"
| "split_nl (c # cs) =
     (if c = CHR ''\<newline>'' then [] # split_nl cs
      else (case split_nl cs of [] \<Rightarrow> [ [c] ] | l # ls \<Rightarrow> (c # l) # ls))"

fun indexOf :: "'a list \<Rightarrow> 'a \<Rightarrow> int" where
  "indexOf [] x = -1"
| "indexOf (y # ys) x =
     (if y = x then 0 else (let i = indexOf ys x in if i < 0 then -1 else i + 1))"

definition at_index :: "'a list \<Rightarrow> int \<Rightarrow> 'a option" where
  "at_index xs i = (if 0 \<le> i \<and> i < int (length xs) then Some (xs ! nat i) else None)"

text \<open>
  \<^verbatim>\<open>s.trim()\<close> removes white space and line terminators from both ends.  On the
  UTF-8 bytes these are the following sequences: TAB, LF, VT, FF, CR, SPACE, U+00A0,
  U+1680, U+2000 to U+200A, U+2028, U+2029, U+202F, U+205F, U+3000 and U+FEFF.
\<close>

definition white_space :: "string list" where
  "white_space =
     [ [CHR 0x09], [CHR 0x0A], [CHR 0x0B], [CHR 0x0C], [CHR 0x0D], [CHR 0x20],
      [CHR 0xC2, CHR 0xA0],
      [CHR 0xE1, CHR 0x9A, CHR 0x80],
      [CHR 0xE2, CHR 0x80, CHR 0x80], [CHR 0xE2, CHR 0x80, CHR 0x81],
      [CHR 0xE2, CHR 0x80, CHR 0x82], [CHR 0xE2, CHR 0x80, CHR 0x83],
      [CHR 0xE2, CHR 0x80, CHR 0x84], [CHR 0xE2, CHR 0x80, CHR 0x85],
      [CHR 0xE2, CHR 0x80, CHR 0x86], [CHR 0xE2, CHR 0x80, CHR 0x87],
      [CHR 0xE2, CHR 0x80, CHR 0x88], [CHR 0xE2, CHR 0x80, CHR 0x89],
      [CHR 0xE2, CHR 0x80, CHR 0x8A],
      [CHR 0xE2, CHR 0x80, CHR 0xA8], [CHR 0xE2, CHR 0x80, CHR 0xA9],
      [CHR 0xE2, CHR 0x80, CHR 0xAF],
      [CHR 0xE2, CHR 0x81, CHR 0x9F],
      [CHR 0xE3, CHR 0x80, CHR 0x80],
      [CHR 0xEF, CHR 0xBB, CHR 0xBF] ]"

function strip_leading :: "string list \<Rightarrow> string \<Rightarrow> string" where
  "strip_leading ws s =
     (case List.find (\<lambda>w. w \<noteq> [] \<and> startsWith s w) ws of
        None \<Rightarrow> s
      | Some w \<Rightarrow> strip_leading ws (drop (length w) s))"
  by pat_completeness auto
termination
proof (relation "measure (\<lambda>(ws, s). length s)")
  show "wf (measure (\<lambda>(ws, s). length s))" by simp
next
  fix ws :: "string list" and s w :: string
  assume "List.find (\<lambda>w. w \<noteq> [] \<and> startsWith s w) ws = Some w"
  then have "w \<noteq> []" and "startsWith s w"
    by (auto simp: find_Some_iff)
  then have "s \<noteq> []"
    by (auto simp: startsWith_def)
  with \<open>w \<noteq> []\<close> show "((ws, drop (length w) s), (ws, s)) \<in> measure (\<lambda>(ws, s). length s)"
    by simp
qed

definition js_trim :: "string \<Rightarrow> string" where
  "js_trim s = rev (strip_leading (map rev white_space) (rev (strip_leading white_space s)))"

declare strip_leading.simps [simp del]

section \<open>The host: functions of the browser and of the markdown library\<close>

text \<open>
  \<^verbatim>\<open>JSON.parse\<close> (\<open>None\<close> when it throws its SyntaxError) and the markdown
  renderer \<^verbatim>\<open>marked.parse\<close> are not code of this repository: they are parameters
  of the model.
\<close>

record host =
  JSON_parse :: "string \<Rightarrow> jsval option"
  marked_parse :: "string \<Rightarrow> string"

section \<open>HTTP requests and responses\<close>

datatype http_method = GET | POST

datatype channel = Fetch | EventSource

record message =
  role :: string
  content :: string

datatype form_value = FileValue string | TextValue string

text \<open>
  The body of a request: none, the JSON text of
  \<^verbatim>\<open>{messages, model, stream}\<close> (sent with \<^verbatim>\<open>Content-Type: application/json\<close>;
  \<open>None\<close> is \<^verbatim>\<open>null\<close>), or a \<^verbatim>\<open>FormData\<close>, which the browser sends as
  multipart form data.
\<close>

datatype request_body =
    NoBody
  | ChatJson "message list" "string option" bool
  | FormData "(string \<times> form_value) list"

record request =
  via :: channel
  "method" :: http_method
  url :: string
  body :: request_body

definition API_BASE_URL :: string where
  "API_BASE_URL = ''/api/v1''"

text \<open>\<^verbatim>\<open>response.ok\<close>: the status is in the range 200 to 299.\<close>

definition status_ok :: "nat \<Rightarrow> bool" where
  "status_ok code = (200 \<le> code \<and> code \<le> 299)"

section \<open>chat.js\<close>

text \<open>
  What the gateway answers to the chat request: the fetch is rejected (network
  failure), or a response arrives with a status and a body that the reader delivers
  as decoded chunks of text and that ends regularly or with a failed read.
\<close>

datatype stream_end = EndOfStream | ReadFailure

datatype chat_outcome =
    ChatRejected
  | ChatResponse nat "string list" stream_end

text \<open>
  An element of the chat window: a message (\<open>isUser\<close>, whether it carries the class
  \<^verbatim>\<open>streaming\<close>, and the HTML of its \<^verbatim>\<open>.message-content\<close>), or the notification
  of a node assignment with its text.
\<close>

datatype chat_element =
    MessageEl bool bool string
  | NotificationEl string

record chat_state =
  conversationHistory :: "message list"
  messageInput_value :: string
  modelSelect_value :: string
  sendButton_disabled :: bool
  chatWindow :: "chat_element list"
  requests :: "request list"
  eventSources :: "string list"

text \<open>
  The variables of one run of the stream-reading loop of \<^verbatim>\<open>sendMessage\<close>:
  \<^verbatim>\<open>buffer\<close>, \<^verbatim>\<open>assistantMessage.content\<close>, \<^verbatim>\<open>contentElement.innerHTML\<close>, and
  the texts of the notifications that \<^verbatim>\<open>displayNodeAssignment\<close> has appended to
  the chat window, in order.
\<close>

record stream_state =
  buffer :: string
  assistantMessage_content :: string
  contentElement_innerHTML :: string
  notifications :: "string list"

text \<open>The text of the notification, before the node name (chat.js, line 168).\<close>

definition assignment_prefix :: string where
  "assignment_prefix =
     [CHR 0xE4, CHR 0xBB, CHR 0xBB, CHR 0xE5, CHR 0x8A, CHR 0xA1, CHR 0xE5, CHR 0xB7,
      CHR 0xB2, CHR 0xE5, CHR 0x88, CHR 0x86, CHR 0xE9, CHR 0x85, CHR 0x8D, CHR 0xE8,
      CHR 0x87, CHR 0xB3, CHR 0x20]"

text \<open>
  \<^verbatim>\<open>displayNodeAssignment(nodeName)\<close>: the template literal converts the name to
  text, which can throw; otherwise one notification is appended.  (Its removal by a
  timer after 3.5 seconds is not part of the model.)
\<close>

definition displayNodeAssignment :: "jsval \<Rightarrow> stream_state \<Rightarrow> stream_state \<times> js_error option" where
  "displayNodeAssignment nodeName st =
     (case js_to_string nodeName of
        None \<Rightarrow> (st, Some TypeError)
      | Some name \<Rightarrow> (st\<lparr>notifications := notifications st @ [assignment_prefix @ name]\<rparr>, None))"

text \<open>\<^verbatim>\<open>parsed.choices[0].delta.content\<close>.\<close>

definition choices0_delta_content :: "jsval \<Rightarrow> js_error + jsval" where
  "choices0_delta_content parsed =
     (case get_prop ''choices'' parsed of
        Inl e \<Rightarrow> Inl e
      | Inr choices \<Rightarrow>
          (case get_index0 choices of
             Inl e \<Rightarrow> Inl e
           | Inr c \<Rightarrow>
               (case get_prop ''delta'' c of
                  Inl e \<Rightarrow> Inl e
                | Inr d \<Rightarrow> get_prop ''content'' d)))"

text \<open>
  The branch for a line that starts with \<^verbatim>\<open>data: \<close> (lines 92 to 104).  Everything
  in it is inside \<^verbatim>\<open>try\<close>/\<^verbatim>\<open>catch\<close>: a payload that does not parse, or a property
  read or conversion that throws, leaves the state as it is.
\<close>

definition handle_data_line :: "host \<Rightarrow> stream_state \<Rightarrow> string \<Rightarrow> stream_state" where
  "handle_data_line h st line =
     (case JSON_parse h (drop 6 line) of
        None \<Rightarrow> st
      | Some parsed \<Rightarrow>
          (case get_prop ''choices'' parsed of
             Inl e \<Rightarrow> st
           | Inr choices \<Rightarrow>
               if \<not> truthy choices then st
               else
                 (case choices0_delta_content parsed of
                    Inl e \<Rightarrow> st
                  | Inr c \<Rightarrow>
                      if \<not> truthy c then st
                      else
                        (case js_to_string c of
                           None \<Rightarrow> st
                         | Some s \<Rightarrow>
                             st\<lparr>assistantMessage_content := assistantMessage_content st @ s,
                                contentElement_innerHTML :=
                                  marked_parse h (assistantMessage_content st @ s)\<rparr>))))"

text \<open>
  The branch for a line that starts with \<^verbatim>\<open>event: node_assigned\<close> (lines 105 to
  114).  The payload is looked for in the line after the first occurrence of this
  line in the lines of the current chunk.  Nothing here is inside the inner
  \<^verbatim>\<open>try\<close>: a payload that does not parse, or a \<^verbatim>\<open>null\<close> payload, throws out of
  the loop.
\<close>

definition handle_event_line ::
  "host \<Rightarrow> string list \<Rightarrow> stream_state \<Rightarrow> string \<Rightarrow> stream_state \<times> js_error option" where
  "handle_event_line h lines st line =
     (case at_index lines (indexOf lines line + 1) of
        None \<Rightarrow> (st, None)
      | Some nextLine \<Rightarrow>
          if nextLine \<noteq> [] \<and> startsWith nextLine ''data: '' then
            (case JSON_parse h (drop 6 nextLine) of
               None \<Rightarrow> (st, Some SyntaxError)
             | Some parsed \<Rightarrow>
                 (case get_prop ''node_name'' parsed of
                    Inl e \<Rightarrow> (st, Some e)
                  | Inr nodeName \<Rightarrow> displayNodeAssignment nodeName st))
          else (st, None))"

definition handle_line ::
  "host \<Rightarrow> string list \<Rightarrow> stream_state \<Rightarrow> string \<Rightarrow> stream_state \<times> js_error option" where
  "handle_line h lines st line =
     (if startsWith line ''data: '' then (handle_data_line h st line, None)
      else if startsWith line ''event: node_assigned'' then handle_event_line h lines st line
      else (st, None))"

text \<open>\<^verbatim>\<open>for (const line of lines)\<close>: the loop ends at the first line that throws.\<close>

fun for_lines ::
  "host \<Rightarrow> string list \<Rightarrow> stream_state \<Rightarrow> string list \<Rightarrow> stream_state \<times> js_error option" where
  "for_lines h lines st [] = (st, None)"
| "for_lines h lines st (l # ls) =
     (case handle_line h lines st l of
        (st', Some e) \<Rightarrow> (st', Some e)
      | (st', None) \<Rightarrow> for_lines h lines st' ls)"

text \<open>
  One turn of \<^verbatim>\<open>while (true)\<close> for a chunk that was read (lines 87 to 115): the
  chunk is added to the buffer, the buffer is split at the newlines, the last piece
  goes back to the buffer and the others are the lines of this turn.
\<close>

definition process_chunk :: "host \<Rightarrow> stream_state \<Rightarrow> string \<Rightarrow> stream_state \<times> js_error option" where
  "process_chunk h st chunk =
     (let pieces = split_nl (buffer st @ chunk);
          lines = butlast pieces
      in for_lines h lines (st\<lparr>buffer := last pieces\<rparr>) lines)"

text \<open>
  The loop (lines 83 to 116) over the chunks the reader delivers.  A read that
  fails throws; a read that reports \<^verbatim>\<open>done\<close> leaves the loop, and what is left in
  the buffer is not looked at again.
\<close>

fun read_loop ::
  "host \<Rightarrow> stream_state \<Rightarrow> string list \<Rightarrow> stream_end \<Rightarrow> stream_state \<times> js_error option" where
  "read_loop h st [] EndOfStream = (st, None)"
| "read_loop h st [] ReadFailure = (st, Some NetworkError)"
| "read_loop h st (chunk # chunks) ending =
     (case process_chunk h st chunk of
        (st', Some e) \<Rightarrow> (st', Some e)
      | (st', None) \<Rightarrow> read_loop h st' chunks ending)"

text \<open>
  \<^verbatim>\<open>renderMessage(message, isStreaming)\<close> appends a message element to the chat
  window; an empty content is shown as \<^verbatim>\<open>...\<close>.
\<close>

definition renderMessage :: "host \<Rightarrow> message \<Rightarrow> bool \<Rightarrow> chat_state \<Rightarrow> chat_state" where
  "renderMessage h m isStreaming st =
     st\<lparr>chatWindow := chatWindow st @
         [MessageEl (role m = ''user'') isStreaming
            (marked_parse h (if content m = [] then ''...'' else content m))]\<rparr>"

definition chat_url :: string where
  "chat_url = ''/api/v1/chat/completions''"

text \<open>The request of lines 57 to 65; \<^verbatim>\<open>modelSelect.value || null\<close>.\<close>

definition chat_request :: "chat_state \<Rightarrow> request" where
  "chat_request st =
     \<lparr>via = Fetch, method = POST, url = chat_url,
      body = ChatJson (conversationHistory st)
               (if modelSelect_value st = [] then None else Some (modelSelect_value st)) True\<rparr>"

text \<open>\<^verbatim>\<open>new EventSource(url)\<close> (line 76) opens a connection with a GET request.\<close>

definition new_EventSource :: "string \<Rightarrow> chat_state \<Rightarrow> chat_state" where
  "new_EventSource u st =
     st\<lparr>requests := requests st @ [\<lparr>via = EventSource, method = GET, url = u, body = NoBody\<rparr>],
        eventSources := eventSources st @ [u]\<rparr>"

definition connect_error_html :: string where
  \<open>connect_error_html =
     ''<p class="text-red-400">Error: Could not connect to the InferOps gateway.</p>''\<close>

text \<open>The variables when the loop starts: the placeholder of the assistant shows \<^verbatim>\<open>...\<close>.\<close>

definition loop_start :: "host \<Rightarrow> stream_state" where
  "loop_start h =
     \<lparr>buffer = [], assistantMessage_content = [],
      contentElement_innerHTML = marked_parse h ''...'', notifications = []\<rparr>"

text \<open>
  \<^verbatim>\<open>sendMessage\<close> is an async function.  Its first part (lines 38 to 65) runs
  from the call to the \<^verbatim>\<open>await\<close> of the fetch: it returns at once when the
  trimmed input is empty (\<open>None\<close>); otherwise it pushes and renders the user
  message, clears the input, disables the send button, renders the placeholder of
  the assistant and sends the request.  It gives the position of the placeholder
  among the children of the chat window, which is what the call remembers of it.
  While the call waits, other handlers of the page can run.
\<close>

definition sendMessage_begin :: "host \<Rightarrow> chat_state \<Rightarrow> (nat \<times> chat_state) option" where
  "sendMessage_begin h st =
     (let messageText = js_trim (messageInput_value st) in
      if messageText = [] then None
      else
        (let userMessage = \<lparr>role = ''user'', content = messageText\<rparr>;
             st1 = renderMessage h userMessage False
                     (st\<lparr>conversationHistory := conversationHistory st @ [userMessage]\<rparr>);
             st2 = st1\<lparr>messageInput_value := [], sendButton_disabled := True\<rparr>;
             position = length (chatWindow st2);
             st3 = renderMessage h \<lparr>role = ''assistant'', content = []\<rparr> True st2
         in Some (position, st3\<lparr>requests := requests st3 @ [chat_request st3]\<rparr>)))"

text \<open>
  The rest of the \<^verbatim>\<open>try\<close> block (lines 67 to 119), from the moment the fetch is
  settled.  It gives the state of the page, the variables of the loop, and the error
  thrown, if any.
\<close>

definition sendMessage_try ::
  "host \<Rightarrow> chat_outcome \<Rightarrow> chat_state \<Rightarrow> chat_state \<times> stream_state \<times> js_error option" where
  "sendMessage_try h outcome st =
     (let init = loop_start h
      in case outcome of
           ChatRejected \<Rightarrow> (st, init, Some NetworkError)
         | ChatResponse code chunks ending \<Rightarrow>
             if \<not> status_ok code then (st, init, Some (HttpError code))
             else
               (let st2 = new_EventSource chat_url st in
                case read_loop h init chunks ending of
                  (ss, Some e) \<Rightarrow> (st2, ss, Some e)
                | (ss, None) \<Rightarrow>
                    (st2,
                     ss\<lparr>contentElement_innerHTML := marked_parse h (assistantMessage_content ss)\<rparr>,
                     None)))"

text \<open>
  The second part of a call, from the moment its fetch is settled to the end of its
  \<^verbatim>\<open>finally\<close> block (lines 67 to 130), for the call whose placeholder is at
  \<open>position\<close>: the rest of the \<^verbatim>\<open>try\<close> block, the \<^verbatim>\<open>catch\<close> block when something
  was thrown, and the \<^verbatim>\<open>finally\<close> block, which enables the send button and pushes
  the assistant message.  The reads of the body are taken together: what another
  handler does between two of them is outside the model.
\<close>

definition sendMessage_complete :: "host \<Rightarrow> chat_outcome \<Rightarrow> nat \<Rightarrow> chat_state \<Rightarrow> chat_state" where
  "sendMessage_complete h outcome position st =
     (case sendMessage_try h outcome st of
        (st4, ss, thrown) \<Rightarrow>
          (let html = (if thrown = None then contentElement_innerHTML ss
                       else connect_error_html);
               assistantMessage =
                 \<lparr>role = ''assistant'', content = assistantMessage_content ss\<rparr>
           in st4\<lparr>sendButton_disabled := False,
                  conversationHistory := conversationHistory st4 @ [assistantMessage],
                  chatWindow :=
                    (chatWindow st4)[position := MessageEl False False html]
                    @ map NotificationEl (notifications ss)\<rparr>))"

text \<open>
  A call of \<^verbatim>\<open>sendMessage\<close> (lines 38 to 131) that runs from its start to the end
  of its \<^verbatim>\<open>finally\<close> block with no other handler of the page running while it
  waits: the first part and then the second.
\<close>

definition sendMessage :: "host \<Rightarrow> chat_outcome \<Rightarrow> chat_state \<Rightarrow> chat_state" where
  "sendMessage h outcome st =
     (case sendMessage_begin h st of
        None \<Rightarrow> st
      | Some (position, st') \<Rightarrow> sendMessage_complete h outcome position st')"

text \<open>
  The two listeners that \<^verbatim>\<open>initChat\<close> installs (lines 21 to 33), with the call of
  \<^verbatim>\<open>sendMessage\<close> that an event starts, if it starts one that reaches the request.
  A click calls \<^verbatim>\<open>sendMessage\<close>; the browser does not deliver a click to a
  disabled button.  A key press in the message input calls \<^verbatim>\<open>sendMessage\<close> when
  the key is Enter without Shift; nothing there looks at the send button.
\<close>

datatype ui_event = Click | Keydown string bool

fun dispatch :: "host \<Rightarrow> ui_event \<Rightarrow> chat_state \<Rightarrow> (nat \<times> chat_state) option" where
  "dispatch h Click st = (if sendButton_disabled st then None else sendMessage_begin h st)"
| "dispatch h (Keydown key shiftKey) st =
     (if key = ''Enter'' \<and> \<not> shiftKey then sendMessage_begin h st else None)"

text \<open>The user types a text into the message input.\<close>

definition type_text :: "string \<Rightarrow> chat_state \<Rightarrow> chat_state" where
  "type_text typed st = st\<lparr>messageInput_value := typed\<rparr>"

text \<open>
  Two calls that overlap: the user types a text and presses Enter; while that call
  waits for its fetch, the user types a second text and presses Enter again; then
  the answer to the first request arrives and the first call runs to its end, and
  then the second.  \<open>None\<close> when one of the key presses starts no call.
\<close>

definition overlapping_sends ::
  "host \<Rightarrow> string \<Rightarrow> string \<Rightarrow> chat_outcome \<Rightarrow> chat_outcome \<Rightarrow> chat_state \<Rightarrow> chat_state option" where
  "overlapping_sends h first second answer1 answer2 st =
     (case dispatch h (Keydown ''Enter'' False) (type_text first st) of
        None \<Rightarrow> None
      | Some (position1, st1) \<Rightarrow>
          (case dispatch h (Keydown ''Enter'' False) (type_text second st1) of
             None \<Rightarrow> None
           | Some (position2, st2) \<Rightarrow>
               Some (sendMessage_complete h answer2 position2
                       (sendMessage_complete h answer1 position1 st2))))"

section \<open>api.js\<close>

text \<open>
  What the gateway answers to a request of \<^verbatim>\<open>api.js\<close>: the fetch is rejected, or a
  response arrives with its status and with what \<^verbatim>\<open>response.json()\<close> gives
  (\<open>None\<close> when the body is not JSON and the call rejects).
\<close>

datatype 'a fetch_outcome =
    FetchRejected
  | FetchResponse nat "'a option"

definition get_request :: "string \<Rightarrow> request" where
  "get_request u = \<lparr>via = Fetch, method = GET, url = u, body = NoBody\<rparr>"

text \<open>
  The body of the \<^verbatim>\<open>try\<close> block shared by the three dashboard helpers:
  \<^verbatim>\<open>await fetch\<close>, the check of \<^verbatim>\<open>response.ok\<close>, \<^verbatim>\<open>await response.json()\<close>.
\<close>

definition fetch_ok_json :: "'a fetch_outcome \<Rightarrow> js_error + 'a" where
  "fetch_ok_json outcome =
     (case outcome of
        FetchRejected \<Rightarrow> Inl NetworkError
      | FetchResponse code parsed \<Rightarrow>
          if \<not> status_ok code then Inl (HttpError code)
          else (case parsed of None \<Rightarrow> Inl SyntaxError | Some v \<Rightarrow> Inr v))"

definition fetchNodeStatuses_request :: request where
  "fetchNodeStatuses_request = get_request (API_BASE_URL @ ''/status/all'')"

definition fetchNodeStatuses :: "jsval fetch_outcome \<Rightarrow> js_error + jsval" where
  "fetchNodeStatuses outcome =
     (case fetch_ok_json outcome of Inr v \<Rightarrow> Inr v | Inl error \<Rightarrow> Inr (JArr []))"

definition fetchAlerts_request :: request where
  "fetchAlerts_request = get_request (API_BASE_URL @ ''/alerts'')"

definition fetchAlerts :: "jsval fetch_outcome \<Rightarrow> js_error + jsval" where
  "fetchAlerts outcome =
     (case fetch_ok_json outcome of Inr v \<Rightarrow> Inr v | Inl error \<Rightarrow> Inr (JArr []))"

definition fetchAvailableModels_request :: request where
  "fetchAvailableModels_request = get_request (API_BASE_URL @ ''/models'')"

definition fetchAvailableModels :: "jsval fetch_outcome \<Rightarrow> js_error + jsval" where
  "fetchAvailableModels outcome =
     (case fetch_ok_json outcome of Inr v \<Rightarrow> Inr v | Inl error \<Rightarrow> Inr (JArr []))"

text \<open>
  \<^verbatim>\<open>uploadDataset\<close> has no \<^verbatim>\<open>try\<close> and does not look at the status: it returns
  what the body parses to.
\<close>

record upload_reply =
  job_id :: "string option"
  detail :: "string option"

definition uploadDataset_request :: "(string \<times> form_value) list \<Rightarrow> request" where
  "uploadDataset_request formData =
     \<lparr>via = Fetch, method = POST, url = API_BASE_URL @ ''/dataset/upload'',
      body = FormData formData\<rparr>"

definition uploadDataset :: "upload_reply fetch_outcome \<Rightarrow> js_error + upload_reply" where
  "uploadDataset outcome =
     (case outcome of
        FetchRejected \<Rightarrow> Inl NetworkError
      | FetchResponse code parsed \<Rightarrow>
          (case parsed of None \<Rightarrow> Inl SyntaxError | Some v \<Rightarrow> Inr v))"

text \<open>The job of the data model: its status, its counters and its results.\<close>

record result =
  original :: jsval
  "output" :: jsval

record job_snapshot =
  status :: string
  total_items :: nat
  processed_items :: nat
  results :: "result list"

definition fetchJobStatus_request :: "string \<Rightarrow> request" where
  "fetchJobStatus_request jobId = get_request (API_BASE_URL @ ''/dataset/status/'' @ jobId)"

definition fetchJobStatus :: "job_snapshot fetch_outcome \<Rightarrow> js_error + job_snapshot" where
  "fetchJobStatus outcome = fetch_ok_json outcome"

section \<open>main.js\<close>

text \<open>
  The first statement of \<^verbatim>\<open>appTick\<close>: \<^verbatim>\<open>await Promise.all([...])\<close> of the three
  helpers.  It throws (into the \<^verbatim>\<open>catch\<close> of \<^verbatim>\<open>appTick\<close>, which skips the four
  updates of the page) when one of the helpers throws; otherwise it gives the data
  that \<^verbatim>\<open>updateNodeCards\<close> and \<^verbatim>\<open>updateDashboardCharts\<close>, \<^verbatim>\<open>updateAlerts\<close> and
  \<^verbatim>\<open>updateModelSelector\<close> are called with.
\<close>

definition appTick_fetch ::
  "jsval fetch_outcome \<Rightarrow> jsval fetch_outcome \<Rightarrow> jsval fetch_outcome
     \<Rightarrow> js_error + (jsval \<times> jsval \<times> jsval)" where
  "appTick_fetch o1 o2 o3 =
     (case fetchNodeStatuses o1 of
        Inl e \<Rightarrow> Inl e
      | Inr nodes \<Rightarrow>
          (case fetchAlerts o2 of
             Inl e \<Rightarrow> Inl e
           | Inr alerts \<Rightarrow>
               (case fetchAvailableModels o3 of
                  Inl e \<Rightarrow> Inl e
                | Inr models \<Rightarrow> Inr (nodes, alerts, models))))"

definition appTick_requests :: "request list" where
  "appTick_requests =
     [fetchNodeStatuses_request, fetchAlerts_request, fetchAvailableModels_request]"

section \<open>ui.js: the alerts\<close>

record alert =
  level :: string
  message :: string

text \<open>The label that line 180 compares the level with.\<close>

definition severe_label :: string where
  "severe_label = [CHR 0xE4, CHR 0xB8, CHR 0xA5, CHR 0xE9, CHR 0x87, CHR 0x8D]"

definition critical_style :: string where
  "critical_style = ''bg-red-900 border border-red-700''"

definition warning_style :: string where
  "warning_style = ''bg-yellow-900 border border-yellow-700''"

text \<open>
  A child of the alerts container: the paragraph that says there is no alert, or the
  element of an alert with its class name and the level and message shown in it.
\<close>

datatype alert_element =
    NoAlertsEl
  | AlertEl string string string

definition alert_className :: "alert \<Rightarrow> string" where
  "alert_className a =
     ''p-3 rounded-lg mb-2 flex items-center '' @
     (if level a = severe_label then critical_style else warning_style)"

definition render_alert :: "alert \<Rightarrow> alert_element" where
  "render_alert a = AlertEl (alert_className a) (level a) (message a)"

text \<open>
  \<^verbatim>\<open>updateAlerts(alerts)\<close> on the children of the alerts container (\<open>None\<close> when
  the page has no such element).
\<close>

definition updateAlerts :: "alert list \<Rightarrow> alert_element list option \<Rightarrow> alert_element list option" where
  "updateAlerts alerts alertsContainer =
     (case alertsContainer of
        None \<Rightarrow> None
      | Some children \<Rightarrow>
          if length alerts = 0 then Some [NoAlertsEl] else Some ([] @ map render_alert alerts))"

text \<open>How an alert element is styled: by the colour classes in its class name.\<close>

fun has_style :: "string \<Rightarrow> alert_element \<Rightarrow> bool" where
  "has_style style NoAlertsEl = False"
| "has_style style (AlertEl className l m) =
     (className = ''p-3 rounded-lg mb-2 flex items-center '' @ style)"

definition styled_critical :: "alert_element \<Rightarrow> bool" where
  "styled_critical el = has_style critical_style el"

definition styled_warning :: "alert_element \<Rightarrow> bool" where
  "styled_warning el = has_style warning_style el"

section \<open>dataset.js\<close>

text \<open>
  The text of the progress line: while processing and when finished it shows the two
  counters and the status; it is not the progress bar, whose width is a floating
  point number and is left out.
\<close>

datatype progress_text =
    NoProgress
  | Processing nat nat string
  | Finished nat nat string
  | StatusError

datatype result_element = ResultEl jsval jsval

datatype dialog =
    SelectFileDialog
  | ErrorDialog string
  | HostErrorDialog js_error

text \<open>
  The state of the dataset module: its two variables, the form, the elements it
  writes to, the interval timers of the page (identifier and period in
  milliseconds; every one of them calls \<^verbatim>\<open>updateJobStatus\<close>), the dialogs
  shown with \<^verbatim>\<open>alert\<close> and the requests sent.
\<close>

record dataset_state =
  currentJobId :: "string option"
  jobStatusInterval :: "nat option"
  timers :: "(nat \<times> nat) list"
  timers_created :: nat
  fileInput_files :: "string list"
  dataCountInput_value :: string
  jobStatusContainer_hidden :: bool
  jobProgressText :: progress_text
  jobResultsContainer :: "result_element list"
  dialogs :: "dialog list"
  sent :: "request list"

text \<open>
  \<^verbatim>\<open>setInterval\<close> gives a new timer a positive identifier;
  \<^verbatim>\<open>clearInterval\<close> removes the timer with the identifier, if there is one
  (\<^verbatim>\<open>clearInterval(null)\<close> does nothing).
\<close>

definition setInterval :: "nat \<Rightarrow> dataset_state \<Rightarrow> nat \<times> dataset_state" where
  "setInterval period st =
     (let t = Suc (timers_created st)
      in (t, st\<lparr>timers := timers st @ [(t, period)], timers_created := t\<rparr>))"

definition clearInterval :: "nat option \<Rightarrow> dataset_state \<Rightarrow> dataset_state" where
  "clearInterval t st =
     (case t of
        None \<Rightarrow> st
      | Some i \<Rightarrow> st\<lparr>timers := filter (\<lambda>(j, period). j \<noteq> i) (timers st)\<rparr>)"

text \<open>\<^verbatim>\<open>if (jobStatusInterval)\<close>: \<^verbatim>\<open>null\<close> and 0 count as false.\<close>

definition startJobMonitoring :: "dataset_state \<Rightarrow> dataset_state" where
  "startJobMonitoring st =
     (let st1 = (case jobStatusInterval st of
                   None \<Rightarrow> st
                 | Some t \<Rightarrow> if t = 0 then st else clearInterval (jobStatusInterval st) st)
      in case setInterval 2000 st1 of (t, st2) \<Rightarrow> st2\<lparr>jobStatusInterval := Some t\<rparr>)"

text \<open>
  The loop of \<^verbatim>\<open>renderJobResults\<close> (lines 118 to 127), from index \<open>i\<close>: one
  element is appended for each of \<^verbatim>\<open>results[i]\<close>, \<^verbatim>\<open>results[i + 1]\<close>, ...
\<close>

function render_from :: "nat \<Rightarrow> result list \<Rightarrow> result_element list \<Rightarrow> result_element list" where
  "render_from i rs children =
     (if i < length rs
      then render_from (Suc i) rs (children @ [ResultEl (original (rs ! i)) (output (rs ! i))])
      else children)"
  by pat_completeness auto
termination
  by (relation "measure (\<lambda>(i, rs, children). length rs - i)") auto

declare render_from.simps [simp del]

definition renderJobResults :: "result list \<Rightarrow> result_element list \<Rightarrow> result_element list" where
  "renderJobResults rs children =
     (let renderedCount = length children in render_from renderedCount rs children)"

text \<open>
  \<^verbatim>\<open>updateJobStatus\<close> (lines 80 to 106) with the answer to its request.  Without a
  current job it returns before it sends anything.
\<close>

definition updateJobStatus :: "job_snapshot fetch_outcome \<Rightarrow> dataset_state \<Rightarrow> dataset_state" where
  "updateJobStatus outcome st =
     (case currentJobId st of
        None \<Rightarrow> st
      | Some jobId \<Rightarrow>
          if jobId = [] then st
          else
            (let st1 = st\<lparr>sent := sent st @ [fetchJobStatus_request jobId]\<rparr>
             in case fetchJobStatus outcome of
                  Inl error \<Rightarrow>
                    (clearInterval (jobStatusInterval st1) st1)
                      \<lparr>jobStatusInterval := None, jobProgressText := StatusError\<rparr>
                | Inr snapshot \<Rightarrow>
                    (let st2 = st1\<lparr>jobProgressText :=
                                    Processing (processed_items snapshot) (total_items snapshot)
                                      (status snapshot),
                                  jobResultsContainer :=
                                    renderJobResults (results snapshot) (jobResultsContainer st1)\<rparr>
                     in if status snapshot = ''completed'' \<or> status snapshot = ''failed''
                        then (clearInterval (jobStatusInterval st2) st2)
                               \<lparr>jobStatusInterval := None,
                                jobProgressText :=
                                  Finished (processed_items snapshot) (total_items snapshot)
                                    (status snapshot)\<rparr>
                        else st2)))"

text \<open>
  \<^verbatim>\<open>handleFormSubmit\<close> (lines 37 to 64) with the answer to the upload.  The form
  data holds \<^verbatim>\<open>file\<close> and, when the count input is not empty, \<^verbatim>\<open>data_count\<close>.
\<close>

definition upload_formData :: "dataset_state \<Rightarrow> (string \<times> form_value) list" where
  "upload_formData st =
     [(''file'', FileValue (hd (fileInput_files st)))] @
     (if dataCountInput_value st \<noteq> [] then [(''data_count'', TextValue (dataCountInput_value st))]
      else [])"

definition upload_failure :: "upload_reply \<Rightarrow> string" where
  "upload_failure response =
     (case detail response of
        None \<Rightarrow> ''Failed to start job.''
      | Some d \<Rightarrow> if d = [] then ''Failed to start job.'' else d)"

definition handleFormSubmit :: "upload_reply fetch_outcome \<Rightarrow> dataset_state \<Rightarrow> dataset_state" where
  "handleFormSubmit outcome st =
     (if length (fileInput_files st) = 0 then st\<lparr>dialogs := dialogs st @ [SelectFileDialog]\<rparr>
      else
        (let st1 = st\<lparr>sent := sent st @ [uploadDataset_request (upload_formData st)]\<rparr>
         in case uploadDataset outcome of
              Inl error \<Rightarrow> st1\<lparr>dialogs := dialogs st1 @ [HostErrorDialog error]\<rparr>
            | Inr response \<Rightarrow>
                (case job_id response of
                   Some j \<Rightarrow>
                     if j \<noteq> [] then
                       startJobMonitoring
                         (st1\<lparr>currentJobId := Some j, jobStatusContainer_hidden := False,
                              jobResultsContainer := []\<rparr>)
                     else st1\<lparr>dialogs := dialogs st1 @ [ErrorDialog (upload_failure response)]\<rparr>
                 | None \<Rightarrow> st1\<lparr>dialogs := dialogs st1 @ [ErrorDialog (upload_failure response)]\<rparr>)))"

text \<open>
  The firings of the interval timer \<open>t\<close>, each with the answer the gateway gives to
  the request of that firing: a firing calls \<^verbatim>\<open>updateJobStatus\<close> and runs to its
  end before the next one; a timer that has been cleared does not fire again.
\<close>

fun run_interval :: "nat \<Rightarrow> job_snapshot fetch_outcome list \<Rightarrow> dataset_state \<Rightarrow> dataset_state" where
  "run_interval t [] st = st"
| "run_interval t (outcome # later) st =
     (if t \<in> fst ` set (timers st) then run_interval t later (updateJobStatus outcome st)
      else st)"

text \<open>
  The displayed result lists after each of a sequence of polls: \<^verbatim>\<open>renderJobResults\<close>
  is called with the results of each snapshot in turn.
\<close>

fun render_polls :: "result list list \<Rightarrow> result_element list \<Rightarrow> result_element list list" where
  "render_polls [] children = []"
| "render_polls (rs # later) children =
     renderJobResults rs children # render_polls later (renderJobResults rs children)"

section \<open>The properties, in the words of the specification\<close>

text \<open>A sequence of lists is append-only: each list extends the one before it.\<close>

fun append_only :: "'a list list \<Rightarrow> bool" where
  "append_only [] = True"
| "append_only [xs] = True"
| "append_only (xs # ys # later) = (prefix xs ys \<and> append_only (ys # later))"

text \<open>The rendered entry of one result.\<close>

definition result_entry :: "result \<Rightarrow> result_element" where
  "result_entry r = ResultEl (original r) (output r)"

text \<open>
  An answer at which polling has to stop: a failed fetch (rejected, a status that is
  not ok, a body that is not JSON), or a snapshot in a terminal state.
\<close>

fun stops_polling :: "job_snapshot fetch_outcome \<Rightarrow> bool" where
  "stops_polling FetchRejected = True"
| "stops_polling (FetchResponse code None) = True"
| "stops_polling (FetchResponse code (Some snapshot)) =
     (\<not> status_ok code \<or> status snapshot = ''completed'' \<or> status snapshot = ''failed'')"

text \<open>
  The requests made by the firings of a timer that meets the answers \<open>outcomes\<close>:
  one for every answer up to and including the first at which polling stops.
\<close>

fun polls_until_stop :: "job_snapshot fetch_outcome list \<Rightarrow> nat" where
  "polls_until_stop [] = 0"
| "polls_until_stop (outcome # later) =
     (if stops_polling outcome then 1 else Suc (polls_until_stop later))"

text \<open>
  The module is monitoring job \<open>j\<close> with timer \<open>t\<close>: the state that
  \<^verbatim>\<open>startJobMonitoring\<close> leaves after an upload.
\<close>

definition monitoring :: "dataset_state \<Rightarrow> string \<Rightarrow> nat \<Rightarrow> bool" where
  "monitoring st j t =
     (currentJobId st = Some j \<and> j \<noteq> [] \<and> jobStatusInterval st = Some t
      \<and> (t, 2000) \<in> set (timers st))"

text \<open>
  A failing answer to a dashboard request: a rejected fetch or a status that is not
  ok.
\<close>

fun failing :: "'a fetch_outcome \<Rightarrow> bool" where
  "failing FetchRejected = True"
| "failing (FetchResponse code parsed) = (\<not> status_ok code)"

text \<open>
  The public API of the gateway (section 6.3 of the specification): the endpoints
  under the base path, each with its method and what it is sent.
\<close>

definition public_api_endpoint :: "request \<Rightarrow> bool" where
  "public_api_endpoint r =
     ((method r = GET \<and> body r = NoBody \<and>
         (url r = ''/api/v1/status/all'' \<or> url r = ''/api/v1/alerts'' \<or> url r = ''/api/v1/models''
          \<or> startsWith (url r) ''/api/v1/dataset/status/''))
      \<or> (method r = POST \<and> url r = ''/api/v1/chat/completions'' \<and>
            (case body r of ChatJson messages model stream \<Rightarrow> True | _ \<Rightarrow> False))
      \<or> (method r = POST \<and> url r = ''/api/v1/dataset/upload'' \<and>
            (case body r of
               FormData parts \<Rightarrow>
                 ''file'' \<in> fst ` set parts \<and> fst ` set parts \<subseteq> {''file'', ''data_count''}
             | _ \<Rightarrow> False)))"

text \<open>
  The history alternates strictly: a user message, an assistant message, a user
  message, ... and ends with an assistant message.
\<close>

fun alternates :: "message list \<Rightarrow> bool" where
  "alternates [] = True"
| "alternates [m] = False"
| "alternates (u # a # ms) = (role u = ''user'' \<and> role a = ''assistant'' \<and> alternates ms)"

text \<open>
  The text fragment of a parsed frame: the value of
  \<^verbatim>\<open>choices[0].delta.content\<close>, when the frame has one and it is a text that is not
  empty.
\<close>

definition frame_fragment :: "jsval \<Rightarrow> string option" where
  "frame_fragment frame =
     (case choices0_delta_content frame of
        Inr (JStr s) \<Rightarrow> if s = [] then None else Some s
      | _ \<Rightarrow> None)"

text \<open>
  A frame of the chat protocol carries text: what it has at
  \<^verbatim>\<open>choices[0].delta.content\<close> is a string, \<^verbatim>\<open>null\<close> or nothing.
\<close>

definition text_frame :: "jsval \<Rightarrow> bool" where
  "text_frame frame =
     (case choices0_delta_content frame of
        Inr (JStr s) \<Rightarrow> True
      | Inr Undefined \<Rightarrow> True
      | Inr JNull \<Rightarrow> True
      | Inr v \<Rightarrow> False
      | Inl e \<Rightarrow> True)"

text \<open>The fragments of the frames of a sequence of \<^verbatim>\<open>data: \<close> lines, in order.\<close>

definition stream_fragments :: "host \<Rightarrow> string list \<Rightarrow> string list" where
  "stream_fragments h ls =
     List.map_filter
       (\<lambda>l. case JSON_parse h (drop 6 l) of None \<Rightarrow> None | Some frame \<Rightarrow> frame_fragment frame) ls"

text \<open>
  The lines that take the branch for the event, and what the loop does with a line
  that does not take it.
\<close>

definition event_line :: "string \<Rightarrow> bool" where
  "event_line l = (\<not> startsWith l ''data: '' \<and> startsWith l ''event: node_assigned'')"

definition plain_step :: "host \<Rightarrow> stream_state \<Rightarrow> string \<Rightarrow> stream_state" where
  "plain_step h st l = (if startsWith l ''data: '' then handle_data_line h st l else st)"

text \<open>
  The text of a sequence of lines, each with its newline; the chunks of a stream cut
  after its first \<open>k\<close> characters, that is the stream as it arrives, with the same
  chunk boundaries, when it ends there; and what a run of the loop leaves behind:
  the content of the assistant message, the HTML of its element, the notifications
  shown and the error thrown (the buffer is not looked at after the loop).
\<close>

definition lines_text :: "string list \<Rightarrow> string" where
  "lines_text ls = concat (map (\<lambda>l. l @ [CHR ''\<newline>'']) ls)"

fun chunks_take :: "nat \<Rightarrow> string list \<Rightarrow> string list" where
  "chunks_take k [] = []"
| "chunks_take k (c # cs) =
     (if length c \<le> k then c # chunks_take (k - length c) cs else [take k c])"

definition loop_result ::
  "stream_state \<times> js_error option \<Rightarrow> string \<times> string \<times> string list \<times> js_error option" where
  "loop_result r =
     (assistantMessage_content (fst r), contentElement_innerHTML (fst r), notifications (fst r),
      snd r)"

section \<open>A host to run the model on\<close>

text \<open>
  A parser for JSON texts, after the grammar of \<^verbatim>\<open>JSON.parse\<close>: white space,
  \<^verbatim>\<open>null\<close>, \<^verbatim>\<open>true\<close>, \<^verbatim>\<open>false\<close>, strings with the escapes of one character,
  integers of at most 15 digits, arrays and objects (a key that comes again replaces
  the value and keeps the place).  It rejects what is not JSON; numbers with a
  fraction or an exponent and \<^verbatim>\<open>\u\<close> escapes are outside its range, and it is
  used on texts without them only.
\<close>

definition is_ws :: "char \<Rightarrow> bool" where
  "is_ws c = (c = CHR 0x20 \<or> c = CHR 0x09 \<or> c = CHR 0x0A \<or> c = CHR 0x0D)"

definition is_digit :: "char \<Rightarrow> bool" where
  "is_digit c = (c \<in> set ''0123456789'')"

definition skip_ws :: "string \<Rightarrow> string" where
  "skip_ws cs = dropWhile is_ws cs"

fun parse_chars :: "string \<Rightarrow> string \<Rightarrow> (string \<times> string) option" where
  "parse_chars acc [] = None"
| "parse_chars acc (c # cs) =
     (if c = CHR 0x22 then Some (acc, cs)
      else if c = CHR 0x5C then
        (case cs of
           [] \<Rightarrow> None
         | e # cs' \<Rightarrow>
             if e = CHR 0x22 \<or> e = CHR 0x5C \<or> e = CHR ''/'' then parse_chars (acc @ [e]) cs'
             else if e = CHR ''n'' then parse_chars (acc @ [CHR 0x0A]) cs'
             else if e = CHR ''t'' then parse_chars (acc @ [CHR 0x09]) cs'
             else if e = CHR ''r'' then parse_chars (acc @ [CHR 0x0D]) cs'
             else if e = CHR ''b'' then parse_chars (acc @ [CHR 0x08]) cs'
             else if e = CHR ''f'' then parse_chars (acc @ [CHR 0x0C]) cs'
             else None)
      else if (of_char c :: nat) < 32 then None
      else parse_chars (acc @ [c]) cs)"

definition parse_int :: "string \<Rightarrow> (string \<times> string) option" where
  "parse_int cs =
     (let neg = (cs \<noteq> [] \<and> hd cs = CHR ''-'');
          ds = takeWhile is_digit (if neg then tl cs else cs);
          r = dropWhile is_digit (if neg then tl cs else cs)
      in if ds = [] \<or> (hd ds = CHR ''0'' \<and> length ds > 1) \<or> length ds > 15
            \<or> (r \<noteq> [] \<and> (hd r = CHR ''.'' \<or> hd r = CHR ''e'' \<or> hd r = CHR ''E''))
         then None
         else Some (if neg \<and> ds \<noteq> ''0'' then CHR ''-'' # ds else ds, r))"

fun put_prop :: "string \<Rightarrow> jsval \<Rightarrow> (string \<times> jsval) list \<Rightarrow> (string \<times> jsval) list" where
  "put_prop k v [] = [(k, v)]"
| "put_prop k v ((k', v') # kvs) = (if k = k' then (k, v) # kvs else (k', v') # put_prop k v kvs)"

text \<open>
  The first argument bounds the number of nested and successive values, and the
  parser gives up when it is used up; \<open>json_parse\<close> starts with more than the
  length of the text.
\<close>

fun parse_value :: "nat \<Rightarrow> string \<Rightarrow> (jsval \<times> string) option"
  and parse_elements :: "nat \<Rightarrow> bool \<Rightarrow> jsval list \<Rightarrow> string \<Rightarrow> (jsval \<times> string) option"
  and parse_members ::
    "nat \<Rightarrow> bool \<Rightarrow> (string \<times> jsval) list \<Rightarrow> string \<Rightarrow> (jsval \<times> string) option"
where
  "parse_value 0 cs = None"
| "parse_value (Suc n) cs =
     (case skip_ws cs of
        [] \<Rightarrow> None
      | c # r \<Rightarrow>
          if c = CHR ''{'' then parse_members n True [] (skip_ws r)
          else if c = CHR ''['' then parse_elements n True [] (skip_ws r)
          else if c = CHR 0x22 then
            (case parse_chars [] r of None \<Rightarrow> None | Some (s, r') \<Rightarrow> Some (JStr s, r'))
          else if startsWith (c # r) ''null'' then Some (JNull, drop 4 (c # r))
          else if startsWith (c # r) ''true'' then Some (JBool True, drop 4 (c # r))
          else if startsWith (c # r) ''false'' then Some (JBool False, drop 5 (c # r))
          else (case parse_int (c # r) of None \<Rightarrow> None | Some (d, r') \<Rightarrow> Some (JNum d, r')))"
| "parse_elements 0 first acc cs = None"
| "parse_elements (Suc n) first acc cs =
     (if first \<and> cs \<noteq> [] \<and> hd cs = CHR '']'' then Some (JArr [], tl cs)
      else
        (case parse_value n cs of
           None \<Rightarrow> None
         | Some (v, r) \<Rightarrow>
             (case skip_ws r of
                [] \<Rightarrow> None
              | c # r' \<Rightarrow>
                  if c = CHR '','' then parse_elements n False (acc @ [v]) (skip_ws r')
                  else if c = CHR '']'' then Some (JArr (acc @ [v]), r')
                  else None)))"
| "parse_members 0 first acc cs = None"
| "parse_members (Suc n) first acc cs =
     (if first \<and> cs \<noteq> [] \<and> hd cs = CHR ''}'' then Some (JObj [], tl cs)
      else if cs = [] \<or> hd cs \<noteq> CHR 0x22 then None
      else
        (case parse_chars [] (tl cs) of
           None \<Rightarrow> None
         | Some (k, r) \<Rightarrow>
             (case skip_ws r of
                [] \<Rightarrow> None
              | c # r1 \<Rightarrow>
                  if c \<noteq> CHR '':'' then None
                  else
                    (case parse_value n r1 of
                       None \<Rightarrow> None
                     | Some (v, r2) \<Rightarrow>
                         (case skip_ws r2 of
                            [] \<Rightarrow> None
                          | d # r3 \<Rightarrow>
                              if d = CHR '','' then
                                parse_members n False (put_prop k v acc) (skip_ws r3)
                              else if d = CHR ''}'' then Some (JObj (put_prop k v acc), r3)
                              else None)))))"

definition json_parse :: "string \<Rightarrow> jsval option" where
  "json_parse s =
     (case parse_value (Suc (length s)) s of
        None \<Rightarrow> None
      | Some (v, r) \<Rightarrow> if skip_ws r = [] then Some v else None)"

text \<open>The host with this parser and a renderer that shows the text as it is.\<close>

definition plain_host :: host where
  "plain_host = \<lparr>JSON_parse = json_parse, marked_parse = (\<lambda>text. text)\<rparr>"

text \<open>The chat page after it has loaded, with a text typed into the message input.\<close>

definition fresh_chat :: "string \<Rightarrow> chat_state" where
  "fresh_chat typed =
     \<lparr>conversationHistory = [], messageInput_value = typed, modelSelect_value = [],
      sendButton_disabled = False, chatWindow = [], requests = [], eventSources = []\<rparr>"

text \<open>The dataset page while it monitors job \<open>j\<close> with the first timer of the page.\<close>

definition monitoring_page :: "string \<Rightarrow> dataset_state" where
  "monitoring_page j =
     \<lparr>currentJobId = Some j, jobStatusInterval = Some 1, timers = [(1, 2000)],
      timers_created = 1, fileInput_files = [''dataset.json''], dataCountInput_value = [],
      jobStatusContainer_hidden = False, jobProgressText = NoProgress,
      jobResultsContainer = [], dialogs = [], sent = []\<rparr>"

section \<open>A call that is not interrupted\<close>

lemma sendMessage_unfold:
  "sendMessage h outcome st =
     (let messageText = js_trim (messageInput_value st) in
      if messageText = [] then st
      else
        (let userMessage = \<lparr>role = ''user'', content = messageText\<rparr>;
             st1 = renderMessage h userMessage False
                     (st\<lparr>conversationHistory := conversationHistory st @ [userMessage]\<rparr>);
             st2 = st1\<lparr>messageInput_value := [], sendButton_disabled := True\<rparr>;
             position = length (chatWindow st2);
             st3 = renderMessage h \<lparr>role = ''assistant'', content = []\<rparr> True st2
         in case sendMessage_try h outcome (st3\<lparr>requests := requests st3 @ [chat_request st3]\<rparr>) of
              (st4, ss, thrown) \<Rightarrow>
                (let html = (if thrown = None then contentElement_innerHTML ss
                             else connect_error_html);
                     assistantMessage =
                       \<lparr>role = ''assistant'', content = assistantMessage_content ss\<rparr>
                 in st4\<lparr>sendButton_disabled := False,
                        conversationHistory := conversationHistory st4 @ [assistantMessage],
                        chatWindow :=
                          (chatWindow st4)[position := MessageEl False False html]
                          @ map NotificationEl (notifications ss)\<rparr>)))"
  by (simp add: sendMessage_def sendMessage_begin_def sendMessage_complete_def Let_def)

section \<open>Lines and chunks\<close>

text \<open>
  Splitting a text that arrives in pieces: the complete lines of the whole text are
  the complete lines of each turn of the loop, in order, and the buffer holds the
  rest.  For lines that do not take the branch for the event, the result of the
  loop does not depend on where the chunks end.
\<close>

lemma split_nl_nonempty: "split_nl s \<noteq> []"
  by (induction s) (auto split: list.splits)

lemma split_nl_append:
  "split_nl (a @ b) = butlast (split_nl a) @ split_nl (last (split_nl a) @ b)"
proof (induction a)
  case Nil
  show ?case by simp
next
  case (Cons c a)
  show ?case
  proof (cases "c = CHR ''\<newline>''")
    case True
    then show ?thesis using Cons split_nl_nonempty[of a] by simp
  next
    case False
    obtain s0 rest where S: "split_nl a = s0 # rest"
      using split_nl_nonempty[of a] by (cases "split_nl a") auto
    show ?thesis
    proof (cases rest)
      case Nil
      with S False Cons show ?thesis by simp
    next
      case (Cons r rs)
      with S False Cons.IH show ?thesis by simp
    qed
  qed
qed

lemma split_nl_no_newline: "l \<in> set (split_nl s) \<Longrightarrow> CHR ''\<newline>'' \<notin> set l"
proof (induction s arbitrary: l)
  case Nil
  then show ?case by simp
next
  case (Cons c s)
  obtain s0 rest where S: "split_nl s = s0 # rest"
    using split_nl_nonempty[of s] by (cases "split_nl s") auto
  from Cons S show ?case by (auto split: if_splits)
qed

lemma split_nl_plain: "CHR ''\<newline>'' \<notin> set l \<Longrightarrow> split_nl l = [l]"
  by (induction l) auto

lemma split_nl_line: "CHR ''\<newline>'' \<notin> set l \<Longrightarrow> split_nl (l @ CHR ''\<newline>'' # r) = l # split_nl r"
  by (induction l) auto

lemma split_nl_lines:
  "\<forall>l\<in>set ls. CHR ''\<newline>'' \<notin> set l \<Longrightarrow>
   split_nl (concat (map (\<lambda>l. l @ [CHR ''\<newline>'']) ls) @ r) = ls @ split_nl r"
  by (induction ls) (auto simp: split_nl_line)

lemma handle_line_plain: "\<not> event_line l \<Longrightarrow> handle_line h lines st l = (plain_step h st l, None)"
  by (auto simp: handle_line_def event_line_def plain_step_def)

lemma for_lines_plain:
  "\<forall>l\<in>set ls. \<not> event_line l \<Longrightarrow> for_lines h lines st ls = (foldl (plain_step h) st ls, None)"
  by (induction ls arbitrary: st) (simp_all add: handle_line_plain)

lemma handle_data_line_buffer:
  "handle_data_line h (st\<lparr>buffer := b\<rparr>) l = (handle_data_line h st l)\<lparr>buffer := b\<rparr>"
  by (simp add: handle_data_line_def split: option.splits sum.splits)

lemma plain_step_buffer: "plain_step h (st\<lparr>buffer := b\<rparr>) l = (plain_step h st l)\<lparr>buffer := b\<rparr>"
  by (simp add: plain_step_def handle_data_line_buffer)

lemma foldl_plain_step_buffer:
  "foldl (plain_step h) (st\<lparr>buffer := b\<rparr>) ls = (foldl (plain_step h) st ls)\<lparr>buffer := b\<rparr>"
  by (induction ls arbitrary: st) (simp_all add: plain_step_buffer)

lemma read_loop_plain:
  assumes "CHR ''\<newline>'' \<notin> set (buffer st)"
    and "\<forall>l\<in>set (butlast (split_nl (buffer st @ concat chunks))). \<not> event_line l"
  shows "read_loop h st chunks EndOfStream =
           ((foldl (plain_step h) st (butlast (split_nl (buffer st @ concat chunks))))
              \<lparr>buffer := last (split_nl (buffer st @ concat chunks))\<rparr>, None)"
  using assms
proof (induction chunks arbitrary: st)
  case Nil
  then show ?case by (simp add: split_nl_plain)
next
  case (Cons c cs)
  define P where "P = split_nl (buffer st @ c)"
  define L where "L = butlast P"
  define B where "B = last P"
  define st1 where "st1 = foldl (plain_step h) (st\<lparr>buffer := B\<rparr>) L"
  have P_ne: "P \<noteq> []" by (simp add: P_def split_nl_nonempty)
  have whole: "split_nl (buffer st @ c @ concat cs) = L @ split_nl (B @ concat cs)"
    using split_nl_append[of "buffer st @ c" "concat cs"] by (simp add: P_def L_def B_def)
  have bl: "butlast (split_nl (buffer st @ c @ concat cs)) = L @ butlast (split_nl (B @ concat cs))"
    and la: "last (split_nl (buffer st @ c @ concat cs)) = last (split_nl (B @ concat cs))"
    using whole split_nl_nonempty[of "B @ concat cs"] by (simp_all add: butlast_append)
  have L_plain: "\<forall>l\<in>set L. \<not> event_line l"
    using Cons.prems(2) bl by auto
  have pc: "process_chunk h st c = (st1, None)"
    by (simp add: process_chunk_def Let_def P_def[symmetric] L_def[symmetric] B_def[symmetric]
        for_lines_plain[OF L_plain] st1_def)
  have b1: "buffer st1 = B"
    by (simp add: st1_def foldl_plain_step_buffer)
  have "B \<in> set P" using P_ne by (simp add: B_def)
  then have nl1: "CHR ''\<newline>'' \<notin> set (buffer st1)"
    using split_nl_no_newline[of B "buffer st @ c"] by (simp add: b1 P_def)
  have rest_plain: "\<forall>l\<in>set (butlast (split_nl (buffer st1 @ concat cs))). \<not> event_line l"
    using Cons.prems(2) bl by (auto simp: b1)
  have "read_loop h st (c # cs) EndOfStream = read_loop h st1 cs EndOfStream"
    by (simp add: pc)
  also have "\<dots> = ((foldl (plain_step h) st1 (butlast (split_nl (buffer st1 @ concat cs))))
              \<lparr>buffer := last (split_nl (buffer st1 @ concat cs))\<rparr>, None)"
    by (rule Cons.IH[OF nl1 rest_plain])
  also have "\<dots> = ((foldl (plain_step h) st (butlast (split_nl (buffer st @ concat (c # cs)))))
              \<lparr>buffer := last (split_nl (buffer st @ concat (c # cs)))\<rparr>, None)"
    by (simp add: bl la b1 st1_def foldl_plain_step_buffer)
  finally show ?case .
qed

lemma falsy_choices:
  "\<not> truthy ch \<Longrightarrow> get_prop ''choices'' f = Inr ch \<Longrightarrow> \<exists>e. choices0_delta_content f = Inl e"
  by (cases ch) (auto simp: choices0_delta_content_def split: list.splits)

lemma handle_data_line_text:
  assumes "JSON_parse h (drop 6 l) = Some frame" and "text_frame frame"
  shows "handle_data_line h st l =
           (case frame_fragment frame of
              None \<Rightarrow> st
            | Some s \<Rightarrow>
                st\<lparr>assistantMessage_content := assistantMessage_content st @ s,
                   contentElement_innerHTML := marked_parse h (assistantMessage_content st @ s)\<rparr>)"
proof (cases "get_prop ''choices'' frame")
  case (Inl e)
  then have "choices0_delta_content frame = Inl e"
    by (simp add: choices0_delta_content_def)
  with Inl assms(1) show ?thesis
    by (simp add: handle_data_line_def frame_fragment_def)
next
  case (Inr ch)
  show ?thesis
  proof (cases "truthy ch")
    case False
    from falsy_choices[OF False Inr] obtain e where "choices0_delta_content frame = Inl e" ..
    with Inr False assms(1) show ?thesis
      by (simp add: handle_data_line_def frame_fragment_def)
  next
    case True
    show ?thesis
    proof (cases "choices0_delta_content frame")
      case (Inl e)
      with Inr True assms(1) show ?thesis
        by (simp add: handle_data_line_def frame_fragment_def)
    next
      case c: (Inr c)
      with assms(2) have "c = Undefined \<or> c = JNull \<or> (\<exists>s. c = JStr s)"
        by (cases c) (simp_all add: text_frame_def)
      with c Inr True assms(1) show ?thesis
        by (auto simp: handle_data_line_def frame_fragment_def)
    qed
  qed
qed

lemma handle_data_line_unparsed:
  "JSON_parse h (drop 6 l) = None \<Longrightarrow> handle_data_line h st l = st"
  by (simp add: handle_data_line_def)

lemma foldl_data_lines:
  assumes "\<forall>l\<in>set ls. startsWith l ''data: ''"
    and "\<forall>l\<in>set ls. \<forall>frame. JSON_parse h (drop 6 l) = Some frame \<longrightarrow> text_frame frame"
  shows "assistantMessage_content (foldl (plain_step h) st ls) =
           assistantMessage_content st @ concat (stream_fragments h ls)
         \<and> notifications (foldl (plain_step h) st ls) = notifications st"
  using assms
proof (induction ls arbitrary: st)
  case Nil
  show ?case by (simp add: stream_fragments_def List.map_filter_simps)
next
  case (Cons l ls)
  have step: "plain_step h st l = handle_data_line h st l"
    using Cons.prems(1) by (simp add: plain_step_def)
  have IH: "assistantMessage_content (foldl (plain_step h) (plain_step h st l) ls) =
           assistantMessage_content (plain_step h st l) @ concat (stream_fragments h ls)
         \<and> notifications (foldl (plain_step h) (plain_step h st l) ls) = notifications (plain_step h st l)"
    using Cons.IH[of "plain_step h st l"] Cons.prems by simp
  show ?case
  proof (cases "JSON_parse h (drop 6 l)")
    case None
    with IH step show ?thesis
      by (simp add: handle_data_line_unparsed stream_fragments_def List.map_filter_simps)
  next
    case (Some frame)
    then have "text_frame frame" using Cons.prems(2) by simp
    from handle_data_line_text[OF Some this, of st] IH step Some show ?thesis
      by (cases "frame_fragment frame") (simp_all add: stream_fragments_def List.map_filter_simps)
  qed
qed

lemma data_line_not_event: "startsWith l ''data: '' \<Longrightarrow> \<not> event_line l"
  by (simp add: event_line_def)

lemma read_loop_data_lines:
  assumes lines: "\<forall>l\<in>set ls. startsWith l ''data: '' \<and> CHR ''\<newline>'' \<notin> set l"
    and frames: "\<forall>l\<in>set ls. \<forall>frame. JSON_parse h (drop 6 l) = Some frame \<longrightarrow> text_frame frame"
    and chunks: "concat chunks = concat (map (\<lambda>l. l @ [CHR ''\<newline>'']) ls)"
    and start: "buffer st = []"
  shows "read_loop h st chunks EndOfStream = (foldl (plain_step h) st ls, None)"
proof -
  have sp: "split_nl (buffer st @ concat chunks) = ls @ [ [] ]"
    using split_nl_lines[of ls "[]"] lines by (simp add: chunks start)
  have "read_loop h st chunks EndOfStream =
          ((foldl (plain_step h) st (butlast (split_nl (buffer st @ concat chunks))))
              \<lparr>buffer := last (split_nl (buffer st @ concat chunks))\<rparr>, None)"
  proof (rule read_loop_plain)
    show "CHR ''\<newline>'' \<notin> set (buffer st)" by (simp add: start)
    show "\<forall>l\<in>set (butlast (split_nl (buffer st @ concat chunks))). \<not> event_line l"
      using lines by (simp add: sp data_line_not_event)
  qed
  also have "\<dots> = (foldl (plain_step h) st ls, None)"
  proof -
    have same: "st\<lparr>buffer := []\<rparr> = st"
      using start by (cases st) simp
    have "(foldl (plain_step h) st ls)\<lparr>buffer := []\<rparr> = foldl (plain_step h) st ls"
      using foldl_plain_step_buffer[where h = h and st = st and b = "[]" and ls = ls]
      by (simp only: same)
    then show ?thesis
      unfolding sp by simp
  qed
  finally show ?thesis .
qed

subsection \<open>Running the model on concrete texts\<close>

lemmas json_eval = json_parse_def skip_ws_def is_ws_def startsWith_def parse_int_def is_digit_def

lemma js_trim_hi: "js_trim ''hi'' = ''hi''"
  by (simp add: js_trim_def white_space_def strip_leading.simps startsWith_def)

lemmas loop_eval = process_chunk_def handle_line_def handle_data_line_def handle_event_line_def
  displayNodeAssignment_def choices0_delta_content_def at_index_def startsWith_def Let_def
  loop_start_def plain_host_def

lemma parse_done: "json_parse ''[DONE]'' = None"
  by (simp add: json_eval)

lemma parse_hello: \<open>json_parse ''{"choices":[{"delta":{"content":"Hello"}}]}'' =
      Some (JObj [(''choices'', JArr [JObj [(''delta'', JObj [(''content'', JStr ''Hello'')])] ])])\<close>
  by (simp add: json_eval)

lemma parse_node: \<open>json_parse ''{"node_id":1,"node_name":"Node 1 (RTX 4090)"}'' =
      Some (JObj [(''node_id'', JNum ''1''), (''node_name'', JStr ''Node 1 (RTX 4090)'')])\<close>
  by (simp add: json_eval)

section \<open>C1: the node assignment and the chunk boundaries\<close>

text \<open>
  Claim C1 says that for a stream that begins with the frame
  \<^verbatim>\<open>event: node_assigned\<close> and its payload line, the loop calls
  \<^verbatim>\<open>displayNodeAssignment\<close> exactly once with the node name of the payload.  The
  loop looks for the payload among the lines of the chunk that completed the event
  line.  When the payload line arrives in the next chunk, no notification is shown:
  the chat window holds the two messages only.  The same text in one chunk gives
  the notification.  In both runs the payload adds nothing to the content of the
  assistant message.
\<close>

theorem node_assignment_lost_across_chunks:
  \<open>chatWindow (sendMessage plain_host
      (ChatResponse 200
         [''event: node_assigned\<newline>'',
          ''data: {"node_id":1,"node_name":"Node 1 (RTX 4090)"}\<newline>\<newline>''] EndOfStream)
      (fresh_chat ''hi'')) =
     [MessageEl True False ''hi'', MessageEl False False [] ]
   \<and> chatWindow (sendMessage plain_host
      (ChatResponse 200
         [''event: node_assigned\<newline>data: {"node_id":1,"node_name":"Node 1 (RTX 4090)"}\<newline>\<newline>'']
         EndOfStream)
      (fresh_chat ''hi'')) =
     [MessageEl True False ''hi'', MessageEl False False [],
      NotificationEl (assignment_prefix @ ''Node 1 (RTX 4090)'')]\<close>
  by (simp add: sendMessage_unfold sendMessage_try_def renderMessage_def new_EventSource_def
      fresh_chat_def js_trim_hi status_ok_def loop_eval parse_node)

section \<open>C2: the accumulated content is the concatenation of the fragments\<close>

text \<open>
  Claim C2.  A response is delivered as chunks whose concatenation is a sequence of
  newline-terminated \<^verbatim>\<open>data: \<close> lines, the chunk boundaries falling anywhere.
  Then the content of the assistant message that \<^verbatim>\<open>sendMessage\<close> accumulates, and
  puts into the history, is the concatenation, in order, of the fragments
  \<^verbatim>\<open>choices[0].delta.content\<close> that are present and not empty in the parsed
  frames.  The frames are those of the chat protocol, whose content is text.
\<close>

theorem sendMessage_concatenates_fragments:
  assumes input: "js_trim (messageInput_value st) \<noteq> []"
    and ok: "status_ok code"
    and lines: "\<forall>l\<in>set ls. startsWith l ''data: '' \<and> CHR ''\<newline>'' \<notin> set l"
    and frames: "\<forall>l\<in>set ls. \<forall>frame. JSON_parse h (drop 6 l) = Some frame \<longrightarrow> text_frame frame"
    and chunks: "concat chunks = concat (map (\<lambda>l. l @ [CHR ''\<newline>'']) ls)"
  shows "conversationHistory (sendMessage h (ChatResponse code chunks EndOfStream) st) =
           conversationHistory st @
             [\<lparr>role = ''user'', content = js_trim (messageInput_value st)\<rparr>,
              \<lparr>role = ''assistant'', content = concat (stream_fragments h ls)\<rparr>]
         \<and> assistantMessage_content (fst (read_loop h (loop_start h) chunks EndOfStream)) =
             concat (stream_fragments h ls)"
proof -
  have rl: "read_loop h (loop_start h) chunks EndOfStream =
              (foldl (plain_step h) (loop_start h) ls, None)"
    by (rule read_loop_data_lines[OF lines frames chunks]) (simp add: loop_start_def)
  have content: "assistantMessage_content (foldl (plain_step h) (loop_start h) ls) =
                   concat (stream_fragments h ls)"
    using foldl_data_lines[of ls h "loop_start h"] lines frames by (simp add: loop_start_def)
  show ?thesis
    using input ok
    by (simp add: sendMessage_unfold sendMessage_try_def Let_def rl content renderMessage_def
        new_EventSource_def)
qed

theorem sendMessage_concatenates_fragments_witness:
  \<open>js_trim (messageInput_value (fresh_chat ''hi'')) \<noteq> [] \<and> status_ok 200
   \<and> concat [''data: {"choi'',
              ''ces":[{"delta":{"content":"Hel"}}]}\<newline>data: {"choices":[{"delta":{}}]}\<newline>da'',
              ''ta: {"choices":[{"delta":{"content":"lo"}}]}\<newline>'']
       = concat (map (\<lambda>l. l @ [CHR ''\<newline>''])
           [''data: {"choices":[{"delta":{"content":"Hel"}}]}'',
            ''data: {"choices":[{"delta":{}}]}'',
            ''data: {"choices":[{"delta":{"content":"lo"}}]}''])
   \<and> conversationHistory
         (sendMessage plain_host
            (ChatResponse 200
               [''data: {"choi'',
                ''ces":[{"delta":{"content":"Hel"}}]}\<newline>data: {"choices":[{"delta":{}}]}\<newline>da'',
                ''ta: {"choices":[{"delta":{"content":"lo"}}]}\<newline>'']
               EndOfStream)
            (fresh_chat ''hi''))
       = [\<lparr>role = ''user'', content = ''hi''\<rparr>, \<lparr>role = ''assistant'', content = ''Hello''\<rparr>]\<close>
proof -
  let ?l1 = \<open>''data: {"choices":[{"delta":{"content":"Hel"}}]}''\<close>
  let ?l2 = \<open>''data: {"choices":[{"delta":{}}]}''\<close>
  let ?l3 = \<open>''data: {"choices":[{"delta":{"content":"lo"}}]}''\<close>
  let ?chunks = \<open>[''data: {"choi'',
              ''ces":[{"delta":{"content":"Hel"}}]}\<newline>data: {"choices":[{"delta":{}}]}\<newline>da'',
              ''ta: {"choices":[{"delta":{"content":"lo"}}]}\<newline>'']\<close>
  have p1: \<open>json_parse ''{"choices":[{"delta":{"content":"Hel"}}]}'' =
      Some (JObj [(''choices'', JArr [JObj [(''delta'', JObj [(''content'', JStr ''Hel'')])] ])])\<close>
    by (simp add: json_eval)
  have p2: \<open>json_parse ''{"choices":[{"delta":{}}]}'' =
      Some (JObj [(''choices'', JArr [JObj [(''delta'', JObj [])] ])])\<close>
    by (simp add: json_eval)
  have p3: \<open>json_parse ''{"choices":[{"delta":{"content":"lo"}}]}'' =
      Some (JObj [(''choices'', JArr [JObj [(''delta'', JObj [(''content'', JStr ''lo'')])] ])])\<close>
    by (simp add: json_eval)
  have input: "js_trim (messageInput_value (fresh_chat ''hi'')) \<noteq> []"
    by (simp add: fresh_chat_def js_trim_hi)
  have ok: "status_ok 200" by (simp add: status_ok_def)
  have lines: "\<forall>l\<in>set [?l1, ?l2, ?l3]. startsWith l ''data: '' \<and> CHR ''\<newline>'' \<notin> set l"
    by (simp add: startsWith_def)
  have frames: "\<forall>l\<in>set [?l1, ?l2, ?l3]. \<forall>frame.
      JSON_parse plain_host (drop 6 l) = Some frame \<longrightarrow> text_frame frame"
    by (auto simp: plain_host_def p1 p2 p3 text_frame_def choices0_delta_content_def)
  have chunks: "concat ?chunks = concat (map (\<lambda>l. l @ [CHR ''\<newline>'']) [?l1, ?l2, ?l3])"
    by simp
  have frags: "concat (stream_fragments plain_host [?l1, ?l2, ?l3]) = ''Hello''"
    by (simp add: stream_fragments_def List.map_filter_simps plain_host_def p1 p2 p3
        frame_fragment_def choices0_delta_content_def)
  from sendMessage_concatenates_fragments[OF input ok lines frames chunks]
  have "conversationHistory (sendMessage plain_host (ChatResponse 200 ?chunks EndOfStream)
            (fresh_chat ''hi''))
       = [\<lparr>role = ''user'', content = ''hi''\<rparr>, \<lparr>role = ''assistant'', content = ''Hello''\<rparr>]"
    by (simp add: frags) (simp add: fresh_chat_def js_trim_hi)
  with input ok chunks show ?thesis by blast
qed

section \<open>C3: the terminating line\<close>

lemma done_not_event: "\<not> event_line ''data: [DONE]''" and blank_not_event: "\<not> event_line []"
  by (simp_all add: event_line_def startsWith_def)

lemma lines_text_simps [simp]:
  "lines_text [] = []"
  "lines_text (l # ls) = l @ CHR ''\<newline>'' # lines_text ls"
  "lines_text (xs @ ys) = lines_text xs @ lines_text ys"
  by (simp_all add: lines_text_def)

lemma split_nl_lines_text:
  "\<forall>l\<in>set ls. CHR ''\<newline>'' \<notin> set l \<Longrightarrow> split_nl (lines_text ls @ r) = ls @ split_nl r"
  using split_nl_lines[of ls r] by (simp add: lines_text_def)

lemma text_split: "x = lines_text (butlast (split_nl x)) @ last (split_nl x)"
proof (induction x)
  case Nil
  show ?case by simp
next
  case (Cons c x)
  obtain l ls where S: "split_nl x = l # ls"
    using split_nl_nonempty[of x] by (cases "split_nl x") auto
  show ?case
  proof (cases "c = CHR ''\<newline>''")
    case True
    with Cons S show ?thesis by simp
  next
    case False
    with Cons S show ?thesis by (cases ls) simp_all
  qed
qed

lemma first_line_unique:
  "CHR ''\<newline>'' \<notin> set l \<Longrightarrow> CHR ''\<newline>'' \<notin> set r \<Longrightarrow>
   l @ CHR ''\<newline>'' # A = r @ CHR ''\<newline>'' # B \<Longrightarrow> l = r \<and> A = B"
proof (induction l arbitrary: r)
  case Nil
  then show ?case by (cases r) auto
next
  case (Cons a l)
  then show ?case by (cases r) auto
qed

lemma lines_prefix:
  assumes "\<forall>l\<in>set L. CHR ''\<newline>'' \<notin> set l" and "\<forall>l\<in>set rs. CHR ''\<newline>'' \<notin> set l"
    and "lines_text L @ X = lines_text rs @ Y"
    and "length (lines_text L) \<le> length (lines_text rs)"
  shows "\<exists>rs1. rs = L @ rs1 \<and> X = lines_text rs1 @ Y"
  using assms
proof (induction L arbitrary: rs)
  case Nil
  then show ?case by simp
next
  case (Cons l L)
  from Cons.prems(4) obtain r rs' where rs: "rs = r # rs'"
    by (cases rs) auto
  from Cons.prems(3) have eq: "l @ CHR ''\<newline>'' # (lines_text L @ X) = r @ CHR ''\<newline>'' # (lines_text rs' @ Y)"
    by (simp add: rs)
  from first_line_unique[OF _ _ eq] Cons.prems(1,2) rs
  have lr: "l = r" and rest: "lines_text L @ X = lines_text rs' @ Y" by auto
  from Cons.prems(4) have len: "length (lines_text L) \<le> length (lines_text rs')"
    by (simp add: rs lr)
  from Cons.IH[OF _ _ rest len] Cons.prems(1,2) rs
  obtain rs1 where "rs' = L @ rs1" and "X = lines_text rs1 @ Y" by auto
  with rs lr show ?case by simp
qed

lemma indexOf_mem:
  "x \<in> set L \<Longrightarrow> 0 \<le> indexOf L x \<and> indexOf L x < int (length L) \<and> L ! nat (indexOf L x) = x"
proof (induction L)
  case Nil
  then show ?case by simp
next
  case (Cons y L)
  show ?case
  proof (cases "y = x")
    case True
    then show ?thesis by simp
  next
    case False
    with Cons have "0 \<le> indexOf L x \<and> indexOf L x < int (length L) \<and> L ! nat (indexOf L x) = x"
      by simp
    with False show ?thesis by (simp add: Let_def nat_add_distrib)
  qed
qed

lemma indexOf_append: "x \<in> set L \<Longrightarrow> indexOf (L @ M) x = indexOf L x"
proof (induction L)
  case Nil
  then show ?case by simp
next
  case (Cons y L)
  then show ?case by (cases "y = x") (simp_all add: Let_def)
qed

lemma indexOf_not_last:
  assumes "x \<in> set L" and "x \<noteq> last L"
  shows "indexOf L x + 1 < int (length L)"
proof -
  from indexOf_mem[OF assms(1)]
  have i: "0 \<le> indexOf L x" "indexOf L x < int (length L)" "L ! nat (indexOf L x) = x" by auto
  from assms(1) have "L \<noteq> []" by auto
  then have "last L = L ! (length L - 1)" by (simp add: last_conv_nth)
  with i(3) assms(2) have "nat (indexOf L x) \<noteq> length L - 1" by auto
  with i(1,2) show ?thesis by linarith
qed

lemma handle_line_context:
  assumes "x \<in> set L" and "event_line x \<longrightarrow> x \<noteq> last L"
  shows "handle_line h (L @ M) st x = handle_line h L st x"
proof (cases "event_line x")
  case False
  then show ?thesis by (simp add: handle_line_plain)
next
  case True
  with assms have nl: "indexOf L x + 1 < int (length L)"
    by (simp add: indexOf_not_last)
  from indexOf_mem[OF assms(1)] have "0 \<le> indexOf L x" by simp
  with nl have "nat (indexOf L x + 1) < length L"
    by linarith
  with nl \<open>0 \<le> indexOf L x\<close>
  have "at_index (L @ M) (indexOf (L @ M) x + 1) = at_index L (indexOf L x + 1)"
    by (simp add: at_index_def indexOf_append[OF assms(1)] nth_append)
  then show ?thesis
    by (simp add: handle_line_def handle_event_line_def)
qed

lemma for_lines_context:
  assumes "set xs \<subseteq> set L" and "\<forall>x\<in>set xs. event_line x \<longrightarrow> x \<noteq> last L"
  shows "for_lines h (L @ M) st xs = for_lines h L st xs"
  using assms
proof (induction xs arbitrary: st)
  case Nil
  show ?case by simp
next
  case (Cons x xs)
  from Cons.prems have "handle_line h (L @ M) st x = handle_line h L st x"
    by (intro handle_line_context) auto
  moreover from Cons have "\<And>st'. for_lines h (L @ M) st' xs = for_lines h L st' xs"
    by auto
  ultimately show ?case
    by (simp split: prod.splits option.splits)
qed

lemma for_lines_append:
  "for_lines h ctx st (xs @ ys) =
     (case for_lines h ctx st xs of
        (st', Some e) \<Rightarrow> (st', Some e)
      | (st', None) \<Rightarrow> for_lines h ctx st' ys)"
  by (induction xs arbitrary: st) (auto split: prod.splits option.splits)

lemma done_tail_not_event:
  "set M \<subseteq> {''data: [DONE]'', []} \<Longrightarrow> \<forall>l\<in>set M. \<not> event_line l"
  using done_not_event blank_not_event by auto

lemma foldl_done_tail:
  assumes "JSON_parse h ''[DONE]'' = None" and "set M \<subseteq> {''data: [DONE]'', []}"
  shows "foldl (plain_step h) st M = st"
  using assms(2)
proof (induction M)
  case Nil
  show ?case by simp
next
  case (Cons l M)
  then have "l = ''data: [DONE]'' \<or> l = []" by auto
  then have "plain_step h st l = st"
    using assms(1) by (auto simp: plain_step_def handle_data_line_def startsWith_def)
  with Cons show ?case by simp
qed

lemma for_lines_done_tail:
  assumes "JSON_parse h ''[DONE]'' = None" and "set M \<subseteq> {''data: [DONE]'', []}"
  shows "for_lines h ctx st M = (st, None)"
  using for_lines_plain[OF done_tail_not_event[OF assms(2)], of h ctx st]
  by (simp add: foldl_done_tail[OF assms])

lemma for_lines_with_done_tail:
  assumes parse: "JSON_parse h ''[DONE]'' = None" and tail: "set M \<subseteq> {''data: [DONE]'', []}"
    and payload: "L = [] \<or> \<not> event_line (last L)"
  shows "for_lines h (L @ M) st (L @ M) = for_lines h L st L"
proof -
  have ctx: "for_lines h (L @ M) st L = for_lines h L st L"
    by (rule for_lines_context) (use payload in auto)
  show ?thesis
    by (simp add: for_lines_append ctx for_lines_done_tail[OF parse tail]
        split: prod.splits option.splits)
qed

lemma displayNodeAssignment_buffer:
  "displayNodeAssignment v (st\<lparr>buffer := b\<rparr>) =
     (case displayNodeAssignment v st of (st', r) \<Rightarrow> (st'\<lparr>buffer := b\<rparr>, r))"
  by (simp add: displayNodeAssignment_def split: option.splits)

lemma handle_line_buffer:
  "handle_line h ctx (st\<lparr>buffer := b\<rparr>) l =
     (case handle_line h ctx st l of (st', r) \<Rightarrow> (st'\<lparr>buffer := b\<rparr>, r))"
  by (simp add: handle_line_def handle_event_line_def handle_data_line_buffer
      displayNodeAssignment_buffer split: option.splits sum.splits)

lemma for_lines_buffer:
  "for_lines h ctx (st\<lparr>buffer := b\<rparr>) xs =
     (case for_lines h ctx st xs of (st', r) \<Rightarrow> (st'\<lparr>buffer := b\<rparr>, r))"
proof (induction xs arbitrary: st)
  case Nil
  show ?case by simp
next
  case (Cons x xs)
  show ?case
    by (simp add: handle_line_buffer Cons split: prod.splits option.splits)
qed

lemma process_chunk_buffer:
  "process_chunk h st c = (st', r) \<Longrightarrow> buffer st' = last (split_nl (buffer st @ c))"
  by (auto simp: process_chunk_def Let_def for_lines_buffer split: prod.splits)

lemma process_empty_chunk:
  "CHR ''\<newline>'' \<notin> set (buffer st) \<Longrightarrow> process_chunk h st [] = (st, None)"
  by (simp add: process_chunk_def split_nl_plain)

lemma read_loop_take_nothing:
  "CHR ''\<newline>'' \<notin> set (buffer st) \<Longrightarrow> read_loop h st (chunks_take 0 cs) EndOfStream = (st, None)"
  by (induction cs) (simp_all add: process_empty_chunk)

lemma read_loop_done_tail:
  assumes parse: "JSON_parse h ''[DONE]'' = None" and tail: "set M \<subseteq> {''data: [DONE]'', []}"
    and buf: "CHR ''\<newline>'' \<notin> set (buffer st)"
    and whole: "buffer st @ concat cs = lines_text M"
  shows "read_loop h st cs EndOfStream = (st\<lparr>buffer := []\<rparr>, None)"
proof -
  have M_lines: "\<forall>l\<in>set M. CHR ''\<newline>'' \<notin> set l"
    using tail by auto
  have sp: "split_nl (buffer st @ concat cs) = M @ [ [] ]"
    using split_nl_lines_text[OF M_lines, of "[]"] by (simp add: whole)
  have "read_loop h st cs EndOfStream =
          ((foldl (plain_step h) st (butlast (split_nl (buffer st @ concat cs))))
              \<lparr>buffer := last (split_nl (buffer st @ concat cs))\<rparr>, None)"
    by (rule read_loop_plain[OF buf]) (use done_tail_not_event[OF tail] in \<open>simp add: sp\<close>)
  then show ?thesis
    by (simp add: sp foldl_done_tail[OF parse tail])
qed

lemma lines_text_newline: "rs \<noteq> [] \<Longrightarrow> CHR ''\<newline>'' \<in> set (lines_text rs)"
  by (cases rs) simp_all

lemma butlast_lines_no_newline: "\<forall>l\<in>set (butlast (split_nl x)). CHR ''\<newline>'' \<notin> set l"
  using split_nl_no_newline[of _ x] by (auto dest: in_set_butlastD)

lemma last_line_no_newline: "CHR ''\<newline>'' \<notin> set (last (split_nl x))"
  using split_nl_no_newline[of "last (split_nl x)" x] split_nl_nonempty[of x] by simp

lemma loop_result_buffer [simp]: "loop_result (st\<lparr>buffer := b\<rparr>, r) = loop_result (st, r)"
  by (simp add: loop_result_def)

lemma read_loop_cut:
  assumes parse: "JSON_parse h ''[DONE]'' = None" and tail: "set M \<subseteq> {''data: [DONE]'', []}"
    and buf: "CHR ''\<newline>'' \<notin> set (buffer st)"
    and lines: "\<forall>l\<in>set rs. CHR ''\<newline>'' \<notin> set l"
    and payload: "rs = [] \<or> \<not> event_line (last rs)"
    and whole: "buffer st @ concat cs = lines_text rs @ lines_text M"
  shows "loop_result (read_loop h st cs EndOfStream) =
         loop_result (read_loop h st
           (chunks_take (length (lines_text rs) - length (buffer st)) cs) EndOfStream)"
  using tail buf lines payload whole
proof (induction cs arbitrary: st rs M)
  case Nil
  show ?case by simp
next
  case (Cons c cs)
  note tail = Cons.prems(1) and buf = Cons.prems(2) and lines = Cons.prems(3)
    and payload = Cons.prems(4) and whole = Cons.prems(5)
  show ?case
  proof (cases "rs = []")
    case True
    with whole have "buffer st @ concat (c # cs) = lines_text M" by simp
    from read_loop_done_tail[OF parse tail buf this] read_loop_take_nothing[OF buf, of h "c # cs"]
    show ?thesis
      by (simp add: True)
  next
    case False
    define T where "T = lines_text rs"
    define k where "k = length T - length (buffer st)"
    have T_nl: "CHR ''\<newline>'' \<in> set T"
      using False by (simp add: T_def lines_text_newline)
    have short: "length (buffer st) < length T"
    proof (rule ccontr)
      assume "\<not> length (buffer st) < length T"
      then have le: "length T \<le> length (buffer st)" by simp
      from whole have "take (length T) (buffer st @ concat (c # cs)) = T"
        by (simp add: T_def)
      with le have "take (length T) (buffer st) = T" by simp
      then have "set T \<subseteq> set (buffer st)"
        by (metis set_take_subset)
      with T_nl buf show False by auto
    qed
    show ?thesis
    proof (cases "length c \<le> k")
      case True
      obtain st1 r where pc: "process_chunk h st c = (st1, r)"
        by (cases "process_chunk h st c")
      show ?thesis
      proof (cases r)
        case (Some e)
        with pc True show ?thesis
          by (simp add: k_def T_def)
      next
        case None
        define L where "L = butlast (split_nl (buffer st @ c))"
        define B where "B = last (split_nl (buffer st @ c))"
        have b1: "buffer st1 = B"
          using process_chunk_buffer[OF pc] by (simp add: B_def)
        have sp: "buffer st @ c = lines_text L @ B"
          unfolding L_def B_def by (rule text_split)
        have L_lines: "\<forall>l\<in>set L. CHR ''\<newline>'' \<notin> set l"
          unfolding L_def by (rule butlast_lines_no_newline)
        have B_nl: "CHR ''\<newline>'' \<notin> set (buffer st1)"
          unfolding b1 B_def by (rule last_line_no_newline)
        have eq: "lines_text L @ (B @ concat cs) = lines_text rs @ lines_text M"
        proof -
          have "lines_text L @ (B @ concat cs) = (buffer st @ c) @ concat cs"
            by (simp add: sp)
          with whole show ?thesis by simp
        qed
        have total: "length (buffer st) + length c = length (lines_text L) + length B"
          using arg_cong[OF sp, of length] by simp
        have len: "length (lines_text L) \<le> length (lines_text rs)"
          using total True short by (simp add: k_def T_def)
        from lines_prefix[OF L_lines lines eq len]
        obtain rs1 where rs: "rs = L @ rs1" and rest: "B @ concat cs = lines_text rs1 @ lines_text M"
          by auto
        have lines1: "\<forall>l\<in>set rs1. CHR ''\<newline>'' \<notin> set l"
          using lines rs by simp
        have payload1: "rs1 = [] \<or> \<not> event_line (last rs1)"
          using payload rs by auto
        have k1: "length (lines_text rs1) - length (buffer st1) = k - length c"
          using total True short by (simp add: k_def T_def rs b1)
        from Cons.IH[OF tail B_nl lines1 payload1] rest
        have "loop_result (read_loop h st1 cs EndOfStream) =
              loop_result (read_loop h st1 (chunks_take (k - length c) cs) EndOfStream)"
          by (simp add: b1 k1[symmetric])
        with pc None True show ?thesis
          by (simp add: k_def T_def)
      qed
    next
      case False
      then have k_less: "k < length c" by simp
      define X where "X = drop k c"
      have "c = take k c @ X"
        by (simp add: X_def)
      then have "(buffer st @ take k c) @ (X @ concat cs) = buffer st @ concat (c # cs)"
        by (metis append.assoc concat.simps(2))
      then have "(buffer st @ take k c) @ (X @ concat cs) = T @ lines_text M"
        using whole by (simp only: T_def)
      moreover have "length (buffer st @ take k c) = length T"
        using k_less short by (simp add: k_def)
      ultimately have both: "buffer st @ take k c = T \<and> X @ concat cs = lines_text M"
        by (metis append_eq_append_conv)
      then have pre: "buffer st @ take k c = T" and rest: "X @ concat cs = lines_text M"
        by simp_all
      obtain sc r where fl: "for_lines h rs st rs = (sc, r)"
        by (cases "for_lines h rs st rs")
      have cut_chunk: "process_chunk h st (take k c) = (sc\<lparr>buffer := []\<rparr>, r)"
        using split_nl_lines_text[OF lines, of "[]"]
        by (simp add: process_chunk_def Let_def pre T_def for_lines_buffer fl)
      have cut_run: "read_loop h st (chunks_take k (c # cs)) EndOfStream = (sc\<lparr>buffer := []\<rparr>, r)"
        using k_less cut_chunk by (cases r) simp_all
      define M1 where "M1 = butlast (split_nl X)"
      define B' where "B' = last (split_nl X)"
      have X_sp: "X = lines_text M1 @ B'"
        unfolding M1_def B'_def by (rule text_split)
      have M1_lines: "\<forall>l\<in>set M1. CHR ''\<newline>'' \<notin> set l"
        unfolding M1_def by (rule butlast_lines_no_newline)
      have M_lines: "\<forall>l\<in>set M. CHR ''\<newline>'' \<notin> set l"
        using tail by auto
      have eqM: "lines_text M1 @ (B' @ concat cs) = lines_text M @ []"
        using rest X_sp by (metis append.assoc append_Nil2)
      have lenM: "length (lines_text M1) \<le> length (lines_text M)"
        using arg_cong[OF eqM, of length] by simp
      from lines_prefix[OF M1_lines M_lines eqM lenM]
      obtain M2 where M: "M = M1 @ M2" and rest2: "B' @ concat cs = lines_text M2"
        by auto
      have tail1: "set M1 \<subseteq> {''data: [DONE]'', []}" and tail2: "set M2 \<subseteq> {''data: [DONE]'', []}"
        using tail M by auto
      have pieces: "split_nl (buffer st @ c) = rs @ split_nl X"
      proof -
        have "buffer st @ c = lines_text rs @ X"
          using pre by (metis T_def X_def append.assoc append_take_drop_id)
        then show ?thesis
          by (simp add: split_nl_lines_text[OF lines])
      qed
      have bl: "butlast (split_nl (buffer st @ c)) = rs @ M1"
        and la: "last (split_nl (buffer st @ c)) = B'"
        using split_nl_nonempty[of X] by (simp_all add: pieces butlast_append M1_def B'_def)
      have chunk: "process_chunk h st c = (sc\<lparr>buffer := B'\<rparr>, r)"
        using \<open>rs \<noteq> []\<close> payload
        by (simp add: process_chunk_def Let_def bl la
            for_lines_with_done_tail[OF parse tail1] for_lines_buffer fl)
      show ?thesis
      proof (cases r)
        case (Some e)
        with chunk cut_run show ?thesis
          by (simp add: k_def T_def)
      next
        case None
        have "CHR ''\<newline>'' \<notin> set (buffer (sc\<lparr>buffer := B'\<rparr>))"
          by (simp add: B'_def last_line_no_newline)
        from read_loop_done_tail[OF parse tail2 this] rest2
        have "read_loop h (sc\<lparr>buffer := B'\<rparr>) cs EndOfStream = (sc\<lparr>buffer := []\<rparr>, None)"
          by simp
        with chunk cut_run None show ?thesis
          by (simp add: k_def T_def)
      qed
    qed
  qed
qed

lemma concat_chunks_take: "concat (chunks_take k cs) = take k (concat cs)"
  by (induction cs arbitrary: k) simp_all

lemma lines_text_blank: "lines_text (replicate n []) = replicate n (CHR ''\<newline>'')"
  by (induction n) simp_all

lemma sendMessage_complete_loop_result:
  assumes "loop_result (read_loop h (loop_start h) cs e) = loop_result (read_loop h (loop_start h) cs' e')"
  shows "sendMessage_complete h (ChatResponse code cs e) position st =
         sendMessage_complete h (ChatResponse code cs' e') position st"
proof -
  obtain s1 r1 where a: "read_loop h (loop_start h) cs e = (s1, r1)"
    by (cases "read_loop h (loop_start h) cs e")
  obtain s2 r2 where b: "read_loop h (loop_start h) cs' e' = (s2, r2)"
    by (cases "read_loop h (loop_start h) cs' e'")
  from assms a b have "assistantMessage_content s1 = assistantMessage_content s2"
    "contentElement_innerHTML s1 = contentElement_innerHTML s2"
    "notifications s1 = notifications s2" "r1 = r2"
    by (simp_all add: loop_result_def)
  then show ?thesis
    by (cases r2) (simp_all add: sendMessage_complete_def sendMessage_try_def Let_def a b)
qed

lemma done_line_handled:
  "JSON_parse h ''[DONE]'' = None \<Longrightarrow> handle_line h batch ss ''data: [DONE]'' = (ss, None)"
  by (simp add: handle_line_def handle_data_line_def startsWith_def)

text \<open>
  Claim C3.  The payload \<^verbatim>\<open>[DONE]\<close> is not JSON and \<^verbatim>\<open>JSON.parse\<close> throws on
  it.  In whatever batch of lines and state of the loop the line
  \<^verbatim>\<open>data: [DONE]\<close> is met, handling it throws nothing and leaves the state as it
  is.  And for a stream of complete lines followed by the terminator, its newline
  and any number of blank lines, delivered in any chunks: the run of the loop leaves
  the same content, the same rendered HTML, the same notifications and the same
  error, if any, as the run on the stream cut before the terminator, and the whole
  run of \<^verbatim>\<open>sendMessage\<close> ends in the same state.  The line before the terminator
  is not the line of the event: that line is followed by its payload.
\<close>

theorem done_line_is_ignored:
  assumes parse: "JSON_parse h ''[DONE]'' = None"
    and lines: "\<forall>l\<in>set ls. CHR ''\<newline>'' \<notin> set l"
    and payload: "ls = [] \<or> \<not> event_line (last ls)"
    and stream: "concat chunks =
                   lines_text ls @ ''data: [DONE]'' @ CHR ''\<newline>'' # replicate n (CHR ''\<newline>'')"
  shows "handle_line h batch ss ''data: [DONE]'' = (ss, None)
         \<and> concat (chunks_take (length (lines_text ls)) chunks) = lines_text ls
         \<and> loop_result (read_loop h (loop_start h) chunks EndOfStream) =
             loop_result (read_loop h (loop_start h)
               (chunks_take (length (lines_text ls)) chunks) EndOfStream)
         \<and> sendMessage h (ChatResponse code chunks EndOfStream) st =
             sendMessage h
               (ChatResponse code (chunks_take (length (lines_text ls)) chunks) EndOfStream) st"
proof -
  let ?M = "''data: [DONE]'' # replicate n []"
  have tail: "set ?M \<subseteq> {''data: [DONE]'', []}" by auto
  have whole: "buffer (loop_start h) @ concat chunks = lines_text ls @ lines_text ?M"
    by (simp add: loop_start_def stream lines_text_blank)
  have same: "loop_result (read_loop h (loop_start h) chunks EndOfStream) =
             loop_result (read_loop h (loop_start h)
               (chunks_take (length (lines_text ls)) chunks) EndOfStream)"
    using read_loop_cut[OF parse tail _ lines payload whole] by (simp add: loop_start_def)
  have cut: "concat (chunks_take (length (lines_text ls)) chunks) = lines_text ls"
    by (simp add: concat_chunks_take stream)
  have run: "sendMessage h (ChatResponse code chunks EndOfStream) st =
             sendMessage h
               (ChatResponse code (chunks_take (length (lines_text ls)) chunks) EndOfStream) st"
    by (simp add: sendMessage_def sendMessage_complete_loop_result[OF same] split: option.splits)
  from done_line_handled[OF parse] cut same run show ?thesis
    by simp
qed

theorem done_line_is_ignored_witness:
  \<open>JSON_parse plain_host ''[DONE]'' = None
   \<and> concat [''event: node_assigned\<newline>data: {"node_id":1,"node_name":"Node 1 (RTX 4090)"}\<newline>\<newline>data: {"choices":[{"delta":{"content":"Hello"}}]}\<newline>data: [DO'',
              ''NE]\<newline>\<newline>''] =
       lines_text [''event: node_assigned'', ''data: {"node_id":1,"node_name":"Node 1 (RTX 4090)"}'', [],
                   ''data: {"choices":[{"delta":{"content":"Hello"}}]}'']
       @ ''data: [DONE]'' @ CHR ''\<newline>'' # replicate 1 (CHR ''\<newline>'')
   \<and> loop_result (read_loop plain_host (loop_start plain_host)
         [''event: node_assigned\<newline>data: {"node_id":1,"node_name":"Node 1 (RTX 4090)"}\<newline>\<newline>data: {"choices":[{"delta":{"content":"Hello"}}]}\<newline>data: [DO'',
          ''NE]\<newline>\<newline>''] EndOfStream) =
       (''Hello'', ''Hello'', [assignment_prefix @ ''Node 1 (RTX 4090)''], None)
   \<and> loop_result (read_loop plain_host (loop_start plain_host)
         [''event: node_assigned\<newline>data: {"node_id":1,"node_name":"Node 1 (RTX 4090)"}\<newline>\<newline>data: {"choices":[{"delta":{"content":"Hello"}}]}\<newline>'']
         EndOfStream) =
       (''Hello'', ''Hello'', [assignment_prefix @ ''Node 1 (RTX 4090)''], None)\<close>
proof -
  let ?ls = \<open>[''event: node_assigned'', ''data: {"node_id":1,"node_name":"Node 1 (RTX 4090)"}'', [],
                   ''data: {"choices":[{"delta":{"content":"Hello"}}]}'']\<close>
  let ?chunks = \<open>[''event: node_assigned\<newline>data: {"node_id":1,"node_name":"Node 1 (RTX 4090)"}\<newline>\<newline>data: {"choices":[{"delta":{"content":"Hello"}}]}\<newline>data: [DO'',
              ''NE]\<newline>\<newline>'']\<close>
  let ?cut = \<open>[''event: node_assigned\<newline>data: {"node_id":1,"node_name":"Node 1 (RTX 4090)"}\<newline>\<newline>data: {"choices":[{"delta":{"content":"Hello"}}]}\<newline>'']\<close>
  have parse: "JSON_parse plain_host ''[DONE]'' = None"
    by (simp add: plain_host_def parse_done)
  have lines: "\<forall>l\<in>set ?ls. CHR ''\<newline>'' \<notin> set l" by simp
  have payload: "?ls = [] \<or> \<not> event_line (last ?ls)"
    by (simp add: event_line_def startsWith_def)
  have stream: "concat ?chunks =
      lines_text ?ls @ ''data: [DONE]'' @ CHR ''\<newline>'' # replicate 1 (CHR ''\<newline>'')"
    by simp
  have cut: "chunks_take (length (lines_text ?ls)) ?chunks = ?cut"
    by simp
  have short: "loop_result (read_loop plain_host (loop_start plain_host) ?cut EndOfStream) =
       (''Hello'', ''Hello'', [assignment_prefix @ ''Node 1 (RTX 4090)''], None)"
    by (simp add: loop_eval loop_result_def parse_node parse_hello)
  from done_line_is_ignored[OF parse lines payload stream, of "[]" "loop_start plain_host" 200
      "fresh_chat ''hi''"]
  have "loop_result (read_loop plain_host (loop_start plain_host) ?chunks EndOfStream) =
        loop_result (read_loop plain_host (loop_start plain_host) ?cut EndOfStream)"
    by (simp only: cut)
  with parse stream short show ?thesis
    by (simp only: simp_thms)
qed

section \<open>C4: the displayed results grow with the results array\<close>

lemma render_from_eq:
  "render_from i rs children = children @ map result_entry (drop i rs)"
proof (induction i rs children rule: render_from.induct)
  case (1 i rs children)
  show ?case
  proof (cases "i < length rs")
    case True
    then have "drop i rs = rs ! i # drop (Suc i) rs"
      by (simp add: Cons_nth_drop_Suc)
    with True "1.IH" show ?thesis
      by (subst render_from.simps) (simp add: result_entry_def)
  next
    case False
    then show ?thesis
      by (subst render_from.simps) simp
  qed
qed

lemma renderJobResults_eq:
  "renderJobResults rs children = children @ map result_entry (drop (length children) rs)"
  by (simp add: renderJobResults_def render_from_eq)

lemma renderJobResults_extends: "prefix children (renderJobResults rs children)"
  by (simp add: renderJobResults_eq)

lemma renderJobResults_prefix:
  assumes "prefix shown rs"
  shows "renderJobResults rs (map result_entry shown) = map result_entry rs"
proof -
  from assms obtain new where "rs = shown @ new" by (auto simp: prefix_def)
  then show ?thesis by (simp add: renderJobResults_eq)
qed

lemma render_polls_append_only:
  "append_only (children # render_polls snapshots children)"
proof (induction snapshots arbitrary: children)
  case Nil
  show ?case by simp
next
  case (Cons rs later)
  from Cons[of "renderJobResults rs children"] show ?case
    by (simp add: renderJobResults_extends)
qed

lemma render_polls_entries:
  assumes "append_only (shown # snapshots)"
  shows "render_polls snapshots (map result_entry shown) = map (map result_entry) snapshots"
  using assms
proof (induction snapshots arbitrary: shown)
  case Nil
  show ?case by simp
next
  case (Cons rs later)
  then have "prefix shown rs" and "append_only (rs # later)" by simp_all
  with Cons.IH[of rs] show ?case
    by (simp add: renderJobResults_prefix)
qed

text \<open>
  Claim C4.  For a sequence of snapshots whose results arrays are append-only,
  starting from the empty container that the upload leaves, the displayed list after
  each poll is the list of the entries of the results of that snapshot, one for each
  element and in the order of the array; and the displayed list after a poll always
  extends the one before it, so that no entry rendered earlier is changed or
  removed.
\<close>

theorem renderJobResults_incremental:
  assumes "append_only snapshots"
  shows "render_polls snapshots [] = map (map result_entry) snapshots
         \<and> append_only ([] # render_polls snapshots [])"
proof -
  have "append_only ([] # snapshots)"
    using assms by (cases snapshots) simp_all
  from render_polls_entries[OF this] render_polls_append_only[of "[]" snapshots]
  show ?thesis by simp
qed

theorem renderJobResults_incremental_witness:
  "append_only
     [ [], [\<lparr>original = JStr ''a'', output = JStr ''A''\<rparr>],
      [\<lparr>original = JStr ''a'', output = JStr ''A''\<rparr>, \<lparr>original = JStr ''b'', output = JNull\<rparr>],
      [\<lparr>original = JStr ''a'', output = JStr ''A''\<rparr>, \<lparr>original = JStr ''b'', output = JNull\<rparr>] ]
   \<and> render_polls
     [ [], [\<lparr>original = JStr ''a'', output = JStr ''A''\<rparr>],
      [\<lparr>original = JStr ''a'', output = JStr ''A''\<rparr>, \<lparr>original = JStr ''b'', output = JNull\<rparr>],
      [\<lparr>original = JStr ''a'', output = JStr ''A''\<rparr>, \<lparr>original = JStr ''b'', output = JNull\<rparr>] ] []
     = [ [], [ResultEl (JStr ''a'') (JStr ''A'')],
        [ResultEl (JStr ''a'') (JStr ''A''), ResultEl (JStr ''b'') JNull],
        [ResultEl (JStr ''a'') (JStr ''A''), ResultEl (JStr ''b'') JNull] ]"
proof -
  let ?s = "[ [], [\<lparr>original = JStr ''a'', output = JStr ''A''\<rparr>],
      [\<lparr>original = JStr ''a'', output = JStr ''A''\<rparr>, \<lparr>original = JStr ''b'', output = JNull\<rparr>],
      [\<lparr>original = JStr ''a'', output = JStr ''A''\<rparr>, \<lparr>original = JStr ''b'', output = JNull\<rparr>] ]"
  have a: "append_only ?s" by simp
  have "render_polls ?s [] = map (map result_entry) ?s"
    using renderJobResults_incremental[OF a] by (rule conjunct1)
  also have "\<dots> = [ [], [ResultEl (JStr ''a'') (JStr ''A'')],
        [ResultEl (JStr ''a'') (JStr ''A''), ResultEl (JStr ''b'') JNull],
        [ResultEl (JStr ''a'') (JStr ''A''), ResultEl (JStr ''b'') JNull] ]"
    by (simp add: result_entry_def)
  finally show ?thesis
    using a by (rule conjI[rotated])
qed

section \<open>C5: polling stops at terminal states\<close>

lemma startJobMonitoring_monitors:
  assumes "currentJobId st = Some j" and "j \<noteq> []"
  shows "monitoring (startJobMonitoring st) j (Suc (timers_created st))"
  using assms
  by (auto simp: startJobMonitoring_def setInterval_def clearInterval_def monitoring_def Let_def
      split: option.splits)

lemma handleFormSubmit_monitors:
  assumes "fileInput_files st \<noteq> []" and "job_id reply = Some j" and "j \<noteq> []"
  shows "monitoring (handleFormSubmit (FetchResponse code (Some reply)) st) j (Suc (timers_created st))
         \<and> jobResultsContainer (handleFormSubmit (FetchResponse code (Some reply)) st) = []"
proof -
  let ?st = "st\<lparr>sent := sent st @ [uploadDataset_request (upload_formData st)],
                currentJobId := Some j, jobStatusContainer_hidden := False,
                jobResultsContainer := []\<rparr>"
  have run: "handleFormSubmit (FetchResponse code (Some reply)) st = startJobMonitoring ?st"
    using assms by (simp add: handleFormSubmit_def uploadDataset_def Let_def)
  have "monitoring (startJobMonitoring ?st) j (Suc (timers_created ?st))"
    by (rule startJobMonitoring_monitors) (simp_all add: assms(3))
  moreover have "jobResultsContainer (startJobMonitoring ?st) = []"
    by (simp add: startJobMonitoring_def setInterval_def clearInterval_def Let_def
        split: option.splits)
  ultimately show ?thesis
    by (simp add: run)
qed

lemma updateJobStatus_renders:
  assumes "monitoring st j t" and "status_ok code"
  shows "jobResultsContainer (updateJobStatus (FetchResponse code (Some snapshot)) st) =
           renderJobResults (results snapshot) (jobResultsContainer st)"
  using assms
  by (simp add: updateJobStatus_def monitoring_def Let_def fetchJobStatus_def fetch_ok_json_def
      clearInterval_def)

lemma clearInterval_removes: "t \<notin> fst ` set (timers (clearInterval (Some t) st))"
  by (auto simp: clearInterval_def)

lemma updateJobStatus_stops:
  assumes "monitoring st j t" and "stops_polling outcome"
  shows "jobStatusInterval (updateJobStatus outcome st) = None
         \<and> t \<notin> fst ` set (timers (updateJobStatus outcome st))
         \<and> sent (updateJobStatus outcome st) = sent st @ [fetchJobStatus_request j]"
proof (cases "fetchJobStatus outcome")
  case (Inl e)
  with assms(1) show ?thesis
    by (auto simp: updateJobStatus_def monitoring_def Let_def clearInterval_def)
next
  case (Inr snapshot)
  with assms(2) have "status snapshot = ''completed'' \<or> status snapshot = ''failed''"
    by (cases outcome rule: stops_polling.cases)
       (auto simp: fetchJobStatus_def fetch_ok_json_def split: if_splits)
  with Inr assms(1) show ?thesis
    by (auto simp: updateJobStatus_def monitoring_def Let_def clearInterval_def)
qed

lemma updateJobStatus_continues:
  assumes "monitoring st j t" and "\<not> stops_polling outcome"
  shows "monitoring (updateJobStatus outcome st) j t
         \<and> timers (updateJobStatus outcome st) = timers st
         \<and> sent (updateJobStatus outcome st) = sent st @ [fetchJobStatus_request j]"
proof -
  from assms(2) obtain code snapshot where
    o: "outcome = FetchResponse code (Some snapshot)" and ok: "status_ok code"
    and st: "status snapshot \<noteq> ''completed''" "status snapshot \<noteq> ''failed''"
    by (cases outcome rule: stops_polling.cases) auto
  with assms(1) show ?thesis
    by (simp add: updateJobStatus_def monitoring_def Let_def fetchJobStatus_def fetch_ok_json_def)
qed

lemma run_interval_cleared: "t \<notin> fst ` set (timers st) \<Longrightarrow> run_interval t later st = st"
  by (cases later) simp_all

lemma run_interval_sent:
  assumes "monitoring st j t"
  shows "sent (run_interval t outcomes st) =
           sent st @ replicate (polls_until_stop outcomes) (fetchJobStatus_request j)"
  using assms
proof (induction outcomes arbitrary: st)
  case Nil
  show ?case by simp
next
  case (Cons outcome later)
  from Cons.prems have active: "t \<in> fst ` set (timers st)"
    by (force simp: monitoring_def)
  show ?case
  proof (cases "stops_polling outcome")
    case True
    from updateJobStatus_stops[OF Cons.prems True] active True show ?thesis
      by (simp add: run_interval_cleared)
  next
    case False
    from updateJobStatus_continues[OF Cons.prems False] Cons.IH[of "updateJobStatus outcome st"]
      active False
    show ?thesis
      by (simp add: replicate_append_same)
  qed
qed

text \<open>
  Claim C5.  While the module monitors a job with its interval timer of 2000
  milliseconds: after \<^verbatim>\<open>updateJobStatus\<close> has met a failed fetch or a snapshot
  with status \<^verbatim>\<open>completed\<close> or \<^verbatim>\<open>failed\<close>, the variable of the interval is
  \<^verbatim>\<open>null\<close>, the timer is cleared, and its later firings send no request; after
  any other snapshot (\<^verbatim>\<open>pending\<close>, \<^verbatim>\<open>running\<close>) the timer is still active.
  So the status requests of a job are one for each answer up to and including the
  first answer that stops the polling.
\<close>

theorem polling_stops_at_terminal_states:
  assumes "monitoring st j t"
  shows "(stops_polling outcome \<longrightarrow>
            jobStatusInterval (updateJobStatus outcome st) = None
            \<and> t \<notin> fst ` set (timers (updateJobStatus outcome st))
            \<and> sent (run_interval t later (updateJobStatus outcome st)) =
                sent (updateJobStatus outcome st))
         \<and> (\<not> stops_polling outcome \<longrightarrow>
              jobStatusInterval (updateJobStatus outcome st) = Some t
              \<and> (t, 2000) \<in> set (timers (updateJobStatus outcome st)))
         \<and> sent (run_interval t outcomes st) =
             sent st @ replicate (polls_until_stop outcomes) (fetchJobStatus_request j)"
  using updateJobStatus_stops[OF assms, of outcome] updateJobStatus_continues[OF assms, of outcome]
    run_interval_sent[OF assms, of outcomes]
  by (auto simp: run_interval_cleared monitoring_def)

theorem polling_stops_at_terminal_states_witness:
  "monitoring (monitoring_page ''job42'') ''job42'' 1
   \<and> \<not> stops_polling (FetchResponse 200
          (Some \<lparr>status = ''running'', total_items = 2, processed_items = 1, results = []\<rparr>))
   \<and> stops_polling (FetchResponse 200
          (Some \<lparr>status = ''completed'', total_items = 2, processed_items = 2, results = []\<rparr>))
   \<and> jobStatusInterval (updateJobStatus (FetchResponse 200
          (Some \<lparr>status = ''running'', total_items = 2, processed_items = 1, results = []\<rparr>))
          (monitoring_page ''job42'')) = Some 1
   \<and> jobStatusInterval (updateJobStatus (FetchResponse 200
          (Some \<lparr>status = ''completed'', total_items = 2, processed_items = 2, results = []\<rparr>))
          (monitoring_page ''job42'')) = None
   \<and> sent (run_interval 1
          [FetchResponse 200
             (Some \<lparr>status = ''running'', total_items = 2, processed_items = 1, results = []\<rparr>),
           FetchResponse 200
             (Some \<lparr>status = ''completed'', total_items = 2, processed_items = 2, results = []\<rparr>),
           FetchResponse 200
             (Some \<lparr>status = ''completed'', total_items = 2, processed_items = 2, results = []\<rparr>)]
          (monitoring_page ''job42'')) =
       [fetchJobStatus_request ''job42'', fetchJobStatus_request ''job42'']"
proof -
  let ?running = "FetchResponse 200
          (Some \<lparr>status = ''running'', total_items = 2, processed_items = 1, results = []\<rparr>)"
  let ?completed = "FetchResponse 200
          (Some \<lparr>status = ''completed'', total_items = 2, processed_items = 2, results = []\<rparr>)"
  have m: "monitoring (monitoring_page ''job42'') ''job42'' 1"
    by (simp add: monitoring_def monitoring_page_def)
  have r: "\<not> stops_polling ?running" and c: "stops_polling ?completed"
    by (simp_all add: status_ok_def)
  have n: "polls_until_stop [?running, ?completed, ?completed] = Suc (Suc 0)"
    using r c by simp
  have s0: "sent (monitoring_page ''job42'') = []"
    by (simp add: monitoring_page_def)
  from polling_stops_at_terminal_states[OF m, of ?running "[]" "[?running, ?completed, ?completed]"]
    polling_stops_at_terminal_states[OF m, of ?completed "[]" "[]"] m r c
  show ?thesis
    by (simp only: n s0 replicate.simps append_Nil simp_thms)
qed

section \<open>C6: the requests of the frontend and the API table\<close>

lemma sendMessage_try_requests:
  assumes "sendMessage_try h outcome st = (st', ss, thrown)"
  shows "requests st' = requests st @
           (if (case outcome of ChatRejected \<Rightarrow> False | ChatResponse code chunks ending \<Rightarrow> status_ok code)
            then [\<lparr>via = EventSource, method = GET, url = chat_url, body = NoBody\<rparr>] else [])
         \<and> eventSources st' = eventSources st @
           (if (case outcome of ChatRejected \<Rightarrow> False | ChatResponse code chunks ending \<Rightarrow> status_ok code)
            then [chat_url] else [])"
  using assms
  by (auto simp: sendMessage_try_def Let_def new_EventSource_def
      split: chat_outcome.splits if_splits prod.splits option.splits)

lemma sendMessage_requests:
  assumes "js_trim (messageInput_value st) \<noteq> []"
  shows "requests (sendMessage h outcome st) =
           requests st @
             \<lparr>via = Fetch, method = POST, url = chat_url,
               body = ChatJson
                 (conversationHistory st @
                    [\<lparr>role = ''user'', content = js_trim (messageInput_value st)\<rparr>])
                 (if modelSelect_value st = [] then None else Some (modelSelect_value st))
                 True\<rparr> #
             (if (case outcome of ChatRejected \<Rightarrow> False | ChatResponse code chunks ending \<Rightarrow> status_ok code)
              then [\<lparr>via = EventSource, method = GET, url = chat_url, body = NoBody\<rparr>] else [])
         \<and> eventSources (sendMessage h outcome st) = eventSources st @
           (if (case outcome of ChatRejected \<Rightarrow> False | ChatResponse code chunks ending \<Rightarrow> status_ok code)
            then [chat_url] else [])"
proof -
  let ?st2 = "renderMessage h \<lparr>role = ''assistant'', content = []\<rparr> True
     ((renderMessage h \<lparr>role = ''user'', content = js_trim (messageInput_value st)\<rparr> False
        (st\<lparr>conversationHistory := conversationHistory st @
           [\<lparr>role = ''user'', content = js_trim (messageInput_value st)\<rparr>]\<rparr>))
       \<lparr>messageInput_value := [], sendButton_disabled := True\<rparr>)"
  let ?st3 = "?st2\<lparr>requests := requests ?st2 @ [chat_request ?st2]\<rparr>"
  obtain st4 ss thrown where t: "sendMessage_try h outcome ?st3 = (st4, ss, thrown)"
    by (cases "sendMessage_try h outcome ?st3") auto
  from sendMessage_try_requests[OF t] assms t show ?thesis
    by (simp add: sendMessage_unfold Let_def renderMessage_def chat_request_def cong: if_cong)
qed

lemma api_requests_in_table:
  "public_api_endpoint fetchNodeStatuses_request"
  "public_api_endpoint fetchAlerts_request"
  "public_api_endpoint fetchAvailableModels_request"
  "public_api_endpoint (fetchJobStatus_request jobId)"
  "public_api_endpoint (uploadDataset_request (upload_formData ds))"
  "public_api_endpoint (chat_request cs)"
  by (auto simp: public_api_endpoint_def fetchNodeStatuses_request_def fetchAlerts_request_def
      fetchAvailableModels_request_def fetchJobStatus_request_def uploadDataset_request_def
      upload_formData_def chat_request_def chat_url_def get_request_def API_BASE_URL_def
      startsWith_def)

text \<open>
  Claim C6 says that every request of the frontend targets an endpoint of the
  public API table.  The requests of \<^verbatim>\<open>api.js\<close>, the upload and the POST of the
  chat do.  A run of \<^verbatim>\<open>sendMessage\<close> that gets a response with an ok status sends
  one more request, the GET of the \<^verbatim>\<open>EventSource\<close> to
  \<^verbatim>\<open>/api/v1/chat/completions\<close>, and the table has no GET for that path.
\<close>

theorem sendMessage_request_outside_api_table:
  "requests (sendMessage plain_host (ChatResponse 200 [] EndOfStream) (fresh_chat ''hi'')) =
       [\<lparr>via = Fetch, method = POST, url = ''/api/v1/chat/completions'',
         body = ChatJson [\<lparr>role = ''user'', content = ''hi''\<rparr>] None True\<rparr>,
        \<lparr>via = EventSource, method = GET, url = ''/api/v1/chat/completions'', body = NoBody\<rparr>]
   \<and> \<not> public_api_endpoint
         \<lparr>via = EventSource, method = GET, url = ''/api/v1/chat/completions'', body = NoBody\<rparr>"
  by (simp add: sendMessage_unfold sendMessage_try_def Let_def renderMessage_def new_EventSource_def
      chat_request_def chat_url_def fresh_chat_def js_trim_hi status_ok_def loop_start_def
      public_api_endpoint_def startsWith_def)

section \<open>C7: the style of an alert\<close>

text \<open>
  Claim C7 says that an alert with level \<^verbatim>\<open>critical\<close> is styled as critical
  (red).  \<^verbatim>\<open>updateAlerts\<close> compares the level with the label of line 180, which
  is not the text \<^verbatim>\<open>critical\<close>: an alert with level \<^verbatim>\<open>critical\<close> is
  styled as a warning (yellow).
\<close>

theorem critical_alert_styled_as_warning:
  "updateAlerts [\<lparr>level = ''critical'', message = ''GPU temperature 91''\<rparr>] (Some []) =
     Some [AlertEl ''p-3 rounded-lg mb-2 flex items-center bg-yellow-900 border border-yellow-700''
             ''critical'' ''GPU temperature 91'']
   \<and> \<not> styled_critical (render_alert \<lparr>level = ''critical'', message = ''GPU temperature 91''\<rparr>)
   \<and> styled_warning (render_alert \<lparr>level = ''critical'', message = ''GPU temperature 91''\<rparr>)"
  by (simp add: updateAlerts_def render_alert_def alert_className_def severe_label_def
      warning_style_def critical_style_def styled_critical_def styled_warning_def)

text \<open>
  Claim C7, amended.  An alert rendered by \<^verbatim>\<open>updateAlerts\<close> is styled as critical
  (red) if and only if its level is the label of line 180, and as a warning (yellow)
  if and only if it is not.
\<close>

theorem alert_style_by_severe_label:
  assumes "alerts \<noteq> []"
  shows "updateAlerts alerts (Some children) = Some (map render_alert alerts)
         \<and> (\<forall>a\<in>set alerts.
               (styled_critical (render_alert a) \<longleftrightarrow> level a = severe_label)
             \<and> (styled_warning (render_alert a) \<longleftrightarrow> level a \<noteq> severe_label))"
  using assms
  by (auto simp: updateAlerts_def render_alert_def alert_className_def
      warning_style_def critical_style_def styled_critical_def styled_warning_def)

theorem alert_style_by_severe_label_witness:
  "updateAlerts
     [\<lparr>level = severe_label, message = ''node 2 offline''\<rparr>,
      \<lparr>level = ''warning'', message = ''memory 93''\<rparr>,
      \<lparr>level = ''critical'', message = ''GPU temperature 91''\<rparr>] (Some [NoAlertsEl]) =
     Some [AlertEl (''p-3 rounded-lg mb-2 flex items-center '' @ critical_style) severe_label
             ''node 2 offline'',
           AlertEl (''p-3 rounded-lg mb-2 flex items-center '' @ warning_style) ''warning''
             ''memory 93'',
           AlertEl (''p-3 rounded-lg mb-2 flex items-center '' @ warning_style) ''critical''
             ''GPU temperature 91'']
   \<and> styled_critical (render_alert \<lparr>level = severe_label, message = ''node 2 offline''\<rparr>)
   \<and> styled_warning (render_alert \<lparr>level = ''warning'', message = ''memory 93''\<rparr>)
   \<and> styled_warning (render_alert \<lparr>level = ''critical'', message = ''GPU temperature 91''\<rparr>)"
proof -
  let ?alerts = "[\<lparr>level = severe_label, message = ''node 2 offline''\<rparr>,
      \<lparr>level = ''warning'', message = ''memory 93''\<rparr>,
      \<lparr>level = ''critical'', message = ''GPU temperature 91''\<rparr>]"
  have ne: "?alerts \<noteq> []" by simp
  have w: "''warning'' \<noteq> severe_label" and c: "''critical'' \<noteq> severe_label"
    by (simp_all add: severe_label_def)
  from alert_style_by_severe_label[OF ne, of "[NoAlertsEl]"] w c show ?thesis
    by (simp add: render_alert_def alert_className_def)
qed

section \<open>C8: the dashboard helpers never throw\<close>

text \<open>
  Claim C8.  \<^verbatim>\<open>fetchNodeStatuses\<close>, \<^verbatim>\<open>fetchAlerts\<close> and
  \<^verbatim>\<open>fetchAvailableModels\<close> return a value for every answer of the gateway; for a
  rejected fetch and for a status that is not ok the value is the empty array.  So
  the \<^verbatim>\<open>Promise.all\<close> of \<^verbatim>\<open>appTick\<close> never throws, and the page is updated
  with the empty array in the place of each request that failed.
\<close>

theorem dashboard_fetches_never_throw:
  "(\<exists>v. fetchNodeStatuses o1 = Inr v) \<and> (\<exists>v. fetchAlerts o2 = Inr v)
   \<and> (\<exists>v. fetchAvailableModels o3 = Inr v)
   \<and> (failing o1 \<longrightarrow> fetchNodeStatuses o1 = Inr (JArr []))
   \<and> (failing o2 \<longrightarrow> fetchAlerts o2 = Inr (JArr []))
   \<and> (failing o3 \<longrightarrow> fetchAvailableModels o3 = Inr (JArr []))
   \<and> (\<exists>nodes alerts models.
         appTick_fetch o1 o2 o3 = Inr (nodes, alerts, models)
         \<and> (failing o1 \<longrightarrow> nodes = JArr []) \<and> (failing o2 \<longrightarrow> alerts = JArr [])
         \<and> (failing o3 \<longrightarrow> models = JArr []))"
  by (cases o1; cases o2; cases o3)
     (auto simp: fetchNodeStatuses_def fetchAlerts_def fetchAvailableModels_def fetch_ok_json_def
        appTick_fetch_def split: option.splits)

theorem dashboard_fetches_never_throw_witness:
  "failing (FetchRejected :: jsval fetch_outcome)
   \<and> failing (FetchResponse 500 (Some (JObj [(''detail'', JStr ''internal'')])))
   \<and> fetchNodeStatuses FetchRejected = Inr (JArr [])
   \<and> fetchAlerts (FetchResponse 500 (Some (JObj [(''detail'', JStr ''internal'')]))) = Inr (JArr [])
   \<and> appTick_fetch FetchRejected
        (FetchResponse 500 (Some (JObj [(''detail'', JStr ''internal'')])))
        (FetchResponse 200 (Some (JArr [JStr ''llama3''])))
       = Inr (JArr [], JArr [], JArr [JStr ''llama3''])"
proof -
  have f1: "failing (FetchRejected :: jsval fetch_outcome)" by simp
  have f2: "failing (FetchResponse 500 (Some (JObj [(''detail'', JStr ''internal'')])))"
    by (simp add: status_ok_def)
  have m: "fetchAvailableModels (FetchResponse 200 (Some (JArr [JStr ''llama3'']))) =
             Inr (JArr [JStr ''llama3''])"
    by (simp add: fetchAvailableModels_def fetch_ok_json_def status_ok_def)
  from dashboard_fetches_never_throw[of FetchRejected
        "FetchResponse 500 (Some (JObj [(''detail'', JStr ''internal'')]))"
        "FetchResponse 200 (Some (JArr [JStr ''llama3'']))"] f1 f2 m
  show ?thesis
    by (auto simp: appTick_fetch_def)
qed

section \<open>C9: the history and overlapping calls\<close>

lemma alternates_append:
  "alternates ms \<Longrightarrow> role u = ''user'' \<Longrightarrow> role a = ''assistant'' \<Longrightarrow> alternates (ms @ [u, a])"
  by (induction ms rule: alternates.induct) simp_all

lemma sendMessage_try_history:
  "sendMessage_try h outcome st = (st', ss, thrown) \<Longrightarrow>
     conversationHistory st' = conversationHistory st \<and> chatWindow st' = chatWindow st"
  by (auto simp: sendMessage_try_def Let_def new_EventSource_def
      split: chat_outcome.splits if_splits prod.splits option.splits)

lemma uninterrupted_call_history:
  "(js_trim (messageInput_value st) = [] \<longrightarrow> sendMessage h outcome st = st)
   \<and> (js_trim (messageInput_value st) \<noteq> [] \<longrightarrow>
        (\<exists>reply. conversationHistory (sendMessage h outcome st) =
           conversationHistory st @
             [\<lparr>role = ''user'', content = js_trim (messageInput_value st)\<rparr>,
              \<lparr>role = ''assistant'', content = reply\<rparr>])
        \<and> sendButton_disabled (sendMessage h outcome st) = False
        \<and> (alternates (conversationHistory st) \<longrightarrow>
             alternates (conversationHistory (sendMessage h outcome st))))"
proof -
  let ?st2 = "renderMessage h \<lparr>role = ''assistant'', content = []\<rparr> True
     ((renderMessage h \<lparr>role = ''user'', content = js_trim (messageInput_value st)\<rparr> False
        (st\<lparr>conversationHistory := conversationHistory st @
           [\<lparr>role = ''user'', content = js_trim (messageInput_value st)\<rparr>]\<rparr>))
       \<lparr>messageInput_value := [], sendButton_disabled := True\<rparr>)"
  let ?st3 = "?st2\<lparr>requests := requests ?st2 @ [chat_request ?st2]\<rparr>"
  obtain st4 ss thrown where t: "sendMessage_try h outcome ?st3 = (st4, ss, thrown)"
    by (cases "sendMessage_try h outcome ?st3") auto
  from sendMessage_try_history[OF t]
  have h4: "conversationHistory st4 = conversationHistory st @
           [\<lparr>role = ''user'', content = js_trim (messageInput_value st)\<rparr>]"
    by (simp add: renderMessage_def)
  have blank: "js_trim (messageInput_value st) = [] \<longrightarrow> sendMessage h outcome st = st"
    by (simp add: sendMessage_unfold)
  have typed: "js_trim (messageInput_value st) \<noteq> [] \<longrightarrow>
     (\<exists>reply. conversationHistory (sendMessage h outcome st) =
        conversationHistory st @
          [\<lparr>role = ''user'', content = js_trim (messageInput_value st)\<rparr>,
           \<lparr>role = ''assistant'', content = reply\<rparr>])
     \<and> sendButton_disabled (sendMessage h outcome st) = False
     \<and> (alternates (conversationHistory st) \<longrightarrow>
          alternates (conversationHistory (sendMessage h outcome st)))"
    using t h4 by (auto simp: sendMessage_unfold Let_def alternates_append)
  from blank typed show ?thesis by (rule conjI)
qed

lemma js_trim_first: "js_trim ''first'' = ''first''" and js_trim_second: "js_trim ''second'' = ''second''"
  by (simp_all add: js_trim_def white_space_def strip_leading.simps startsWith_def)

lemma parse_world: \<open>json_parse ''{"choices":[{"delta":{"content":"World"}}]}'' =
      Some (JObj [(''choices'', JArr [JObj [(''delta'', JObj [(''content'', JStr ''World'')])] ])])\<close>
  by (simp add: json_eval)

text \<open>
  Claim C9 says that every call of \<^verbatim>\<open>sendMessage\<close> with an input adds a user
  message followed by an assistant message, so that the roles in the history
  alternate strictly.  A call that nothing interrupts does (the lemma above, for an
  input that is not empty after trimming).  But the call pushes the user message
  before it waits for the fetch and the assistant message in its \<^verbatim>\<open>finally\<close>
  block, and while it waits only the send button is disabled: the Enter key in the
  message input starts a second call.  The user types a text, presses Enter, types
  a second text and presses Enter while the first call waits; a click would start
  nothing then.  The request of the second call carries two user messages in a
  row, and when both calls have ended the history holds two user messages followed
  by two assistant messages.
\<close>

theorem overlapping_sends_break_alternation:
  \<open>dispatch plain_host (Keydown ''Enter'' False) (type_text ''first'' (fresh_chat [])) =
     Some (1,
       \<lparr>conversationHistory = [\<lparr>role = ''user'', content = ''first''\<rparr>],
        messageInput_value = [], modelSelect_value = [], sendButton_disabled = True,
        chatWindow = [MessageEl True False ''first'', MessageEl False True ''...''],
        requests = [\<lparr>via = Fetch, method = POST, url = ''/api/v1/chat/completions'',
                     body = ChatJson [\<lparr>role = ''user'', content = ''first''\<rparr>] None True\<rparr>],
        eventSources = []\<rparr>)
   \<and> dispatch plain_host Click
        (type_text ''second''
          \<lparr>conversationHistory = [\<lparr>role = ''user'', content = ''first''\<rparr>],
           messageInput_value = [], modelSelect_value = [], sendButton_disabled = True,
           chatWindow = [MessageEl True False ''first'', MessageEl False True ''...''],
           requests = [\<lparr>via = Fetch, method = POST, url = ''/api/v1/chat/completions'',
                        body = ChatJson [\<lparr>role = ''user'', content = ''first''\<rparr>] None True\<rparr>],
           eventSources = []\<rparr>) = None
   \<and> map_option (\<lambda>(position, st). (position, conversationHistory st, body (last (requests st))))
        (dispatch plain_host (Keydown ''Enter'' False)
          (type_text ''second''
            \<lparr>conversationHistory = [\<lparr>role = ''user'', content = ''first''\<rparr>],
             messageInput_value = [], modelSelect_value = [], sendButton_disabled = True,
             chatWindow = [MessageEl True False ''first'', MessageEl False True ''...''],
             requests = [\<lparr>via = Fetch, method = POST, url = ''/api/v1/chat/completions'',
                          body = ChatJson [\<lparr>role = ''user'', content = ''first''\<rparr>] None True\<rparr>],
             eventSources = []\<rparr>)) =
       Some (3,
         [\<lparr>role = ''user'', content = ''first''\<rparr>, \<lparr>role = ''user'', content = ''second''\<rparr>],
         ChatJson [\<lparr>role = ''user'', content = ''first''\<rparr>, \<lparr>role = ''user'', content = ''second''\<rparr>]
           None True)
   \<and> map_option conversationHistory
        (overlapping_sends plain_host ''first'' ''second''
          (ChatResponse 200 [''data: {"choices":[{"delta":{"content":"Hello"}}]}\<newline>''] EndOfStream)
          (ChatResponse 200 [''data: {"choices":[{"delta":{"content":"World"}}]}\<newline>''] EndOfStream)
          (fresh_chat [])) =
       Some [\<lparr>role = ''user'', content = ''first''\<rparr>, \<lparr>role = ''user'', content = ''second''\<rparr>,
             \<lparr>role = ''assistant'', content = ''Hello''\<rparr>,
             \<lparr>role = ''assistant'', content = ''World''\<rparr>]
   \<and> \<not> alternates
         [\<lparr>role = ''user'', content = ''first''\<rparr>, \<lparr>role = ''user'', content = ''second''\<rparr>,
          \<lparr>role = ''assistant'', content = ''Hello''\<rparr>,
          \<lparr>role = ''assistant'', content = ''World''\<rparr>]\<close>
  by (simp add: overlapping_sends_def type_text_def fresh_chat_def sendMessage_begin_def
      sendMessage_complete_def sendMessage_try_def renderMessage_def new_EventSource_def
      chat_request_def chat_url_def status_ok_def js_trim_first js_trim_second
      loop_eval parse_hello parse_world)

section \<open>C10: the extra EventSource connection\<close>

text \<open>
  Claim C10.  A run of \<^verbatim>\<open>sendMessage\<close> that reaches the streaming phase (the
  response has an ok status) sends two requests, the POST and then the GET of an
  \<^verbatim>\<open>EventSource\<close> to \<^verbatim>\<open>/api/v1/chat/completions\<close>, and that connection is
  still open when the run ends, whatever the stream delivers.  A run that does not
  reach the streaming phase sends the POST only.
\<close>

theorem sendMessage_opens_event_source:
  assumes "js_trim (messageInput_value st) \<noteq> []"
  shows "(status_ok code \<longrightarrow>
            requests (sendMessage h (ChatResponse code chunks ending) st) =
              requests st @
                [\<lparr>via = Fetch, method = POST, url = ''/api/v1/chat/completions'',
                  body = ChatJson
                    (conversationHistory st @
                       [\<lparr>role = ''user'', content = js_trim (messageInput_value st)\<rparr>])
                    (if modelSelect_value st = [] then None else Some (modelSelect_value st))
                    True\<rparr>,
                 \<lparr>via = EventSource, method = GET, url = ''/api/v1/chat/completions'',
                  body = NoBody\<rparr>]
            \<and> eventSources (sendMessage h (ChatResponse code chunks ending) st) =
                eventSources st @ [''/api/v1/chat/completions''])
         \<and> (\<not> status_ok code \<longrightarrow>
              length (requests (sendMessage h (ChatResponse code chunks ending) st)) =
                Suc (length (requests st))
              \<and> eventSources (sendMessage h (ChatResponse code chunks ending) st) =
                  eventSources st)
         \<and> length (requests (sendMessage h ChatRejected st)) = Suc (length (requests st))
         \<and> eventSources (sendMessage h ChatRejected st) = eventSources st"
  using sendMessage_requests[OF assms, of h "ChatResponse code chunks ending"]
    sendMessage_requests[OF assms, of h ChatRejected]
  by (simp add: chat_url_def)

theorem sendMessage_opens_event_source_witness:
  "js_trim (messageInput_value (fresh_chat ''hi'')) \<noteq> [] \<and> status_ok 200
   \<and> requests (sendMessage plain_host (ChatResponse 200 [] EndOfStream) (fresh_chat ''hi'')) =
       [\<lparr>via = Fetch, method = POST, url = ''/api/v1/chat/completions'',
         body = ChatJson [\<lparr>role = ''user'', content = ''hi''\<rparr>] None True\<rparr>,
        \<lparr>via = EventSource, method = GET, url = ''/api/v1/chat/completions'', body = NoBody\<rparr>]
   \<and> eventSources (sendMessage plain_host (ChatResponse 200 [] EndOfStream) (fresh_chat ''hi'')) =
       [''/api/v1/chat/completions'']
   \<and> \<not> status_ok 503
   \<and> eventSources (sendMessage plain_host (ChatResponse 503 [] EndOfStream) (fresh_chat ''hi'')) = []"
proof -
  have i: "js_trim (messageInput_value (fresh_chat ''hi'')) \<noteq> []"
    by (simp add: fresh_chat_def js_trim_hi)
  have ok: "status_ok 200" and bad: "\<not> status_ok 503"
    by (simp_all add: status_ok_def)
  from sendMessage_opens_event_source[OF i, of 200 plain_host "[]" EndOfStream]
       sendMessage_opens_event_source[OF i, of 503 plain_host "[]" EndOfStream] i ok bad
  show ?thesis
    by (simp add: fresh_chat_def js_trim_hi)
qed

end
